theory Spec2Isabelle
  imports Complex_Main "HOL-Library.Word" "HOL-Library.Monad_Syntax"
begin

unbundle bit_operations_syntax

section \<open>Velocity mapping (controller.go)\<close>

text \<open>
  The table \<open>velocitytable\<close> of controller.go, 128 entries of type uint8.
\<close>

definition velocitytable :: "nat list" where
  "velocitytable = [
    0, 1, 3, 5, 6, 8, 10, 11,
    13, 14, 16, 17, 19, 20, 22, 23,
    25, 26, 27, 29, 30, 32, 33, 34,
    36, 37, 39, 41, 43, 45, 47, 49,
    50, 52, 54, 55, 57, 59, 60, 61,
    63, 64, 66, 67, 68, 69, 71, 72,
    73, 74, 75, 76, 77, 79, 80, 81,
    82, 83, 84, 84, 85, 86, 87, 88,
    89, 90, 91, 92, 92, 93, 94, 95,
    96, 96, 97, 98, 99, 99, 100, 101,
    101, 102, 103, 103, 104, 105, 105, 106,
    107, 107, 108, 109, 109, 110, 110, 111,
    112, 112, 113, 113, 114, 114, 115, 115,
    116, 117, 117, 118, 118, 119, 119, 120,
    120, 121, 121, 122, 122, 123, 123, 123,
    124, 124, 125, 125, 126, 126, 127, 127]"

text \<open>
  \<open>ymfConvertVelocity(data, velocity)\<close>. Go's \<open>int\<close> is modelled by \<open>int\<close>; the
  arithmetic shift \<open>>> 7\<close> of a signed value is \<open>drop_bit 7\<close> (division by 128 rounding
  down). Indexing the table outside 0..127 panics: the result is \<open>None\<close>.
\<close>

definition ymfConvertVelocity :: "int \<Rightarrow> int \<Rightarrow> int option" where
  "ymfConvertVelocity data velocity =
     (if 0 \<le> velocity \<and> velocity < int (length velocitytable)
      then (let r = int (velocitytable ! nat velocity)
            in Some (0x3f - drop_bit 7 ((0x3f - data) * r)))
      else None)"

section \<open>The channel (sim/channel.go)\<close>

text \<open>
  A fixed array of four elements, as \<open>[4]*operator\<close> and the rows of the algorithm
  matrices.
\<close>

datatype 'a array4 = Array4 'a 'a 'a 'a

fun nth4 :: "'a array4 \<Rightarrow> nat \<Rightarrow> 'a" where
  "nth4 (Array4 a b c d) i = (if i = 0 then a else if i = 1 then b else if i = 2 then c else d)"

fun map4 :: "('a \<Rightarrow> 'b) \<Rightarrow> 'a array4 \<Rightarrow> 'b array4" where
  "map4 f (Array4 a b c d) = Array4 (f a) (f b) (f c) (f d)"

fun zip4 :: "'a array4 \<Rightarrow> 'b array4 \<Rightarrow> ('a \<times> 'b) array4" where
  "zip4 (Array4 a b c d) (Array4 a' b' c' d') = Array4 (a, a') (b, b') (c, c') (d, d')"

fun list4 :: "'a array4 \<Rightarrow> 'a list" where
  "list4 (Array4 a b c d) = [a, b, c, d]"

text \<open>
  Modelled from the spec: the envelope stages of the operator, whose source file is not
  part of the sources at hand. The spec names them Off, Attack, Decay, Sustain, Release
  and Damp; channel.go only mentions \<open>stageOff\<close>.
\<close>

datatype stage = stageOff | stageAttack | stageDecay | stageSustain | stageRelease | stageDamp

text \<open>
  The operator as channel.go sees it. The phase generator and the remaining fields of the
  envelope generator are not visible from channel.go and stay abstract (\<open>'p\<close>, \<open>'e\<close>);
  \<open>'f\<close> stands for float64, of which only the constant 0, addition and multiplication
  are used.
\<close>

record 'e envelopeGenerator =
  stage :: stage
  egState :: 'e

record ('f, 'p, 'e) operator =
  phaseGenerator :: 'p
  envelopeGenerator :: "'e envelopeGenerator"
  feedbackCoef :: 'f
  isModulator :: bool

record ('f, 'p, 'e) Channel =
  channelID :: int
  midiChannelID :: int
  fnum :: int
  kon :: int
  block :: int
  alg :: int
  panpot :: int
  chpan :: int
  volume :: int
  expression :: int
  velocity :: int
  bo :: int
  feedbackBlendPrev :: 'f
  feedbackBlendCurr :: 'f
  feedback1Prev :: 'f
  feedback1Curr :: 'f
  feedback3Prev :: 'f
  feedback3Curr :: 'f
  feedbackOut1 :: 'f
  feedbackOut3 :: 'f
  attenuationCoef :: 'f
  modIndexFrac64 :: "64 word"
  lfoFrequency :: "64 word"
  panCoefL :: 'f
  panCoefR :: 'f
  operators :: "('f, 'p, 'e) operator array4"

text \<open>
  Modelled from the spec: \<open>ymfdata.CarrierMatrix\<close>, one row per algorithm 0..7, read off
  the table of carriers in the spec (alg 0: {2}, 1: {1,2}, 2: {1,2,3,4}, 3: {4}, 4: {4},
  5: {2,4}, 6: {1,4}, 7: {1,3,4}).
\<close>

definition CarrierMatrix :: "bool array4 list" where
  "CarrierMatrix = [
     Array4 False True False False,
     Array4 True True False False,
     Array4 True True True True,
     Array4 False False False True,
     Array4 False False False True,
     Array4 False True False True,
     Array4 True False False True,
     Array4 True False True True]"

text \<open>
  \<open>isOff\<close>: every carrier of the current algorithm is in stage Off. Indexing the matrix
  with an algorithm outside its rows panics (\<open>None\<close>).
\<close>

definition isOff :: "('f, 'p, 'e) Channel \<Rightarrow> bool option" where
  "isOff ch =
     (if 0 \<le> alg ch \<and> alg ch < int (length CarrierMatrix)
      then Some (list_all
             (\<lambda>(carrier, op). \<not> carrier \<or> stage (envelopeGenerator op) = stageOff)
             (list4 (zip4 (CarrierMatrix ! nat (alg ch)) (operators ch))))
      else None)"

text \<open>
  \<open>reset\<close>. The two generator resets live in the operator's file; they are parameters.
\<close>

definition reset ::
  "('p \<Rightarrow> 'p) \<Rightarrow> ('e envelopeGenerator \<Rightarrow> 'e envelopeGenerator) \<Rightarrow>
   ('f::zero, 'p, 'e) Channel \<Rightarrow> ('f, 'p, 'e) Channel" where
  "reset pgReset egReset ch =
     ch\<lparr>modIndexFrac64 := 0,
        feedback1Prev := 0, feedback1Curr := 0,
        feedback3Prev := 0, feedback3Curr := 0,
        feedbackOut1 := 0, feedbackOut3 := 0,
        operators := map4 (\<lambda>op. op\<lparr>phaseGenerator := pgReset (phaseGenerator op),
                                      envelopeGenerator := egReset (envelopeGenerator op)\<rparr>)
                          (operators ch)\<rparr>"

text \<open>
  \<open>setALG\<close>. \<open>ymfdata.ModulatorMatrix\<close> is a parameter (a row of four flags per
  algorithm); indexing it outside its rows panics.
\<close>

definition setALG ::
  "('p \<Rightarrow> 'p) \<Rightarrow> ('e envelopeGenerator \<Rightarrow> 'e envelopeGenerator) \<Rightarrow> bool array4 list \<Rightarrow>
   ('f::zero, 'p, 'e) Channel \<Rightarrow> int \<Rightarrow> ('f, 'p, 'e) Channel option" where
  "setALG pgReset egReset ModulatorMatrix ch v =
     (let ch1 = (if alg ch \<noteq> v then reset pgReset egReset ch else ch);
          ch2 = ch1\<lparr>alg := v,
                    feedback1Prev := 0, feedback1Curr := 0,
                    feedback3Prev := 0, feedback3Curr := 0\<rparr>
      in if 0 \<le> v \<and> v < int (length ModulatorMatrix)
         then Some (ch2\<lparr>operators :=
                map4 (\<lambda>(m, op). op\<lparr>isModulator := m\<rparr>)
                     (zip4 (ModulatorMatrix ! nat v) (operators ch2))\<rparr>)
         else None)"

text \<open>
  The tail of \<open>next\<close>, after the switch: the two feedback delay lines, the attenuation
  and the panning. \<open>ops\<close> are the operators as the evaluation left them.
\<close>

definition nextFinish ::
  "('f::{zero,plus,times}, 'p, 'e) Channel \<Rightarrow> ('f, 'p, 'e) operator array4 \<Rightarrow>
   'f \<Rightarrow> 'f \<Rightarrow> 'f \<Rightarrow> ('f \<times> 'f) \<times> ('f, 'p, 'e) Channel" where
  "nextFinish ch ops result op1out op3out =
     (let op1 = nth4 ops 0; op3 = nth4 ops 2;
          ch1 = (if feedbackCoef op1 \<noteq> 0
                 then (let prev = feedback1Curr ch; curr = op1out * feedbackCoef op1
                       in ch\<lparr>feedback1Prev := prev, feedback1Curr := curr,
                             feedbackOut1 := prev * feedbackBlendPrev ch
                                           + curr * feedbackBlendCurr ch\<rparr>)
                 else ch);
          ch2 = (if feedbackCoef op3 \<noteq> 0
                 then (let prev = feedback3Curr ch1; curr = op3out * feedbackCoef op3
                       in ch1\<lparr>feedback3Prev := prev, feedback3Curr := curr,
                              feedbackOut3 := prev * feedbackBlendPrev ch1
                                            + curr * feedbackBlendCurr ch1\<rparr>)
                 else ch1);
          r = result * attenuationCoef ch2
      in ((r * panCoefL ch2, r * panCoefR ch2), ch2\<lparr>operators := ops\<rparr>))"

text \<open>
  \<open>next\<close> (the name is taken by the proof language, hence \<open>Channel_next\<close>). The
  operator's own \<open>next(modIndex, modulator)\<close> is a parameter \<open>opNext\<close> that returns the
  sample and the operator as it leaves it; \<open>MM\<close> is \<open>ymfdata.ModulatorMultiplier\<close> and
  \<open>modTableIndex x\<close> is \<open>int(x >> ymfdata.ModTableIndexShift)\<close>. The result is the
  stereo frame and the channel after the call. \<open>noModulator\<close> is the constant 0.
\<close>

definition Channel_next ::
  "(('f, 'p, 'e) operator \<Rightarrow> int \<Rightarrow> 'f \<Rightarrow> 'f \<times> ('f, 'p, 'e) operator) \<Rightarrow> 'f \<Rightarrow>
   (64 word \<Rightarrow> int) \<Rightarrow> ('f::{zero,plus,times}, 'p, 'e) Channel \<Rightarrow>
   ('f \<times> 'f) \<times> ('f, 'p, 'e) Channel" where
  "Channel_next opNext MM modTableIndex ch0 =
     (let op1 = nth4 (operators ch0) 0; op2 = nth4 (operators ch0) 1;
          op3 = nth4 (operators ch0) 2; op4 = nth4 (operators ch0) 3;
          off = (\<lambda>op. stage (envelopeGenerator op) = stageOff);
          modIndex = modTableIndex (modIndexFrac64 ch0);
          ch = ch0\<lparr>modIndexFrac64 := modIndexFrac64 ch0 + lfoFrequency ch0\<rparr>
      in
      if alg ch = 0 then
        (if off op2 then ((0, 0), ch)
         else (let (op1out, op1') = opNext op1 modIndex (feedbackOut1 ch);
                   (result, op2') = opNext op2 modIndex (op1out * MM)
               in nextFinish ch (Array4 op1' op2' op3 op4) result op1out 0))
      else if alg ch = 1 then
        (if off op1 \<and> off op2 then ((0, 0), ch)
         else (let (op1out, op1') = opNext op1 modIndex (feedbackOut1 ch);
                   (op2out, op2') = opNext op2 modIndex 0
               in nextFinish ch (Array4 op1' op2' op3 op4) (op1out + op2out) op1out 0))
      else if alg ch = 2 then
        (if off op1 \<and> off op2 \<and> off op3 \<and> off op4 then ((0, 0), ch)
         else (let (op1out, op1') = opNext op1 modIndex (feedbackOut1 ch);
                   (op2out, op2') = opNext op2 modIndex 0;
                   (op3out, op3') = opNext op3 modIndex (feedbackOut3 ch);
                   (op4out, op4') = opNext op4 modIndex 0
               in nextFinish ch (Array4 op1' op2' op3' op4')
                    (op1out + op2out + op3out + op4out) op1out op3out))
      else if alg ch = 3 then
        (if off op4 then ((0, 0), ch)
         else (let (op1out, op1') = opNext op1 modIndex (feedbackOut1 ch);
                   (op2out, op2') = opNext op2 modIndex 0;
                   (op3out, op3') = opNext op3 modIndex (op2out * MM);
                   (result, op4') = opNext op4 modIndex ((op1out + op3out) * MM)
               in nextFinish ch (Array4 op1' op2' op3' op4') result op1out op3out))
      else if alg ch = 4 then
        (if off op4 then ((0, 0), ch)
         else (let (op1out, op1') = opNext op1 modIndex (feedbackOut1 ch);
                   (op2out, op2') = opNext op2 modIndex (op1out * MM);
                   (op3out, op3') = opNext op3 modIndex (op2out * MM);
                   (result, op4') = opNext op4 modIndex (op3out * MM)
               in nextFinish ch (Array4 op1' op2' op3' op4') result op1out op3out))
      else if alg ch = 5 then
        (if off op2 \<and> off op4 then ((0, 0), ch)
         else (let (op1out, op1') = opNext op1 modIndex (feedbackOut1 ch);
                   (op2out, op2') = opNext op2 modIndex (op1out * MM);
                   (op3out, op3') = opNext op3 modIndex (feedbackOut3 ch);
                   (op4out, op4') = opNext op4 modIndex (op3out * MM)
               in nextFinish ch (Array4 op1' op2' op3' op4') (op2out + op4out) op1out op3out))
      else if alg ch = 6 then
        (if off op1 \<and> off op4 then ((0, 0), ch)
         else (let (op1out, op1') = opNext op1 modIndex (feedbackOut1 ch);
                   (op2out, op2') = opNext op2 modIndex 0;
                   (op3out, op3') = opNext op3 modIndex (op2out * MM);
                   (op4out, op4') = opNext op4 modIndex (op3out * MM)
               in nextFinish ch (Array4 op1' op2' op3' op4') (op1out + op4out) op1out op3out))
      else if alg ch = 7 then
        (if off op1 \<and> off op3 \<and> off op4 then ((0, 0), ch)
         else (let (op1out, op1') = opNext op1 modIndex (feedbackOut1 ch);
                   (op2out, op2') = opNext op2 modIndex 0;
                   (op3out, op3') = opNext op3 modIndex (op2out * MM);
                   (op4out, op4') = opNext op4 modIndex 0
               in nextFinish ch (Array4 op1' op2' op3' op4')
                    (op1out + op3out + op4out) op1out op3out))
      else nextFinish ch (operators ch) 0 0 0)"

text \<open>
  A concrete channel for the closed examples: algorithm 0, operator 1 still sounding
  with feedback, the carrier (operator 2) and the others in stage Off, float64 read as
  \<open>real\<close>. The modulator matrix used with it marks every operator that is no carrier.
\<close>

definition exampleOperator :: "stage \<Rightarrow> real \<Rightarrow> (real, unit, unit) operator" where
  "exampleOperator s fb =
     \<lparr>phaseGenerator = (), envelopeGenerator = \<lparr>stage = s, egState = ()\<rparr>,
      feedbackCoef = fb, isModulator = False\<rparr>"

definition exampleChannel :: "(real, unit, unit) Channel" where
  "exampleChannel =
     \<lparr>channelID = 0, midiChannelID = 0, fnum = 0, kon = 1, block = 0, alg = 0,
      panpot = 15, chpan = 64, volume = 100, expression = 127, velocity = 0, bo = 1,
      feedbackBlendPrev = 0, feedbackBlendCurr = 1,
      feedback1Prev = 0, feedback1Curr = 1, feedback3Prev = 0, feedback3Curr = 0,
      feedbackOut1 = 1, feedbackOut3 = 0, attenuationCoef = 1,
      modIndexFrac64 = 0, lfoFrequency = 1, panCoefL = 1, panCoefR = 1,
      operators = Array4 (exampleOperator stageRelease 1) (exampleOperator stageOff 0)
                         (exampleOperator stageOff 0) (exampleOperator stageOff 0)\<rparr>"

definition exampleModulatorMatrix :: "bool array4 list" where
  "exampleModulatorMatrix = map (map4 Not) CarrierMatrix"

section \<open>The controller (controller.go): data\<close>

type_synonym flag = int

definition flagSustain :: flag where "flagSustain = 0x02"
definition flagVibrato :: flag where "flagVibrato = 0x04"
definition flagFree :: flag where "flagFree = 0x80"

definition modThresh :: int where "modThresh = 40"

definition ccBankMSB :: int where "ccBankMSB = 0"
definition ccModulation :: int where "ccModulation = 1"
definition ccDataEntryHi :: int where "ccDataEntryHi = 6"
definition ccVolume :: int where "ccVolume = 7"
definition ccPan :: int where "ccPan = 10"
definition ccExpression :: int where "ccExpression = 11"
definition ccBankLSB :: int where "ccBankLSB = 32"
definition ccDataEntryLo :: int where "ccDataEntryLo = 38"
definition ccSustainPedal :: int where "ccSustainPedal = 64"
definition ccNRPNLo :: int where "ccNRPNLo = 98"
definition ccNRPNHi :: int where "ccNRPNHi = 99"
definition ccRPNLo :: int where "ccRPNLo = 100"
definition ccRPNHi :: int where "ccRPNHi = 101"
definition ccSoundsOff :: int where "ccSoundsOff = 120"
definition ccNotesOff :: int where "ccNotesOff = 123"

text \<open>
  The instrument data of the voice library (package smaf of another repository), with the
  fields the controller reads. Numeric fields hold the value the controller obtains with
  \<open>int(...)\<close>. \<open>FmVoice\<close> is a pointer: \<open>None\<close> is nil.
\<close>

datatype VoiceType = VoiceType_FM | VoiceType_PCM | VoiceType_AL

record VM35FMOperator =
  Eam :: bool
  Evb :: bool
  Dam :: int
  Dvb :: int
  Dt :: int
  Ksl :: int
  Ksr :: bool
  Ws :: int
  Multi :: int
  Fb :: int
  Ar :: int
  Dr :: int
  Sl :: int
  Sr :: int
  Rr :: int
  Tl :: int
  Xof :: bool

record VM35FMVoice =
  DrumKey :: int
  Operators :: "VM35FMOperator list"
  Alg :: int
  Lfo :: int
  Panpot :: int
  Bo :: int

record VM35VoicePC =
  Pc :: nat
  BankLsb :: nat
  BankMsb :: nat
  DrumNote :: int
  VoiceType :: VoiceType
  FmVoice :: "VM35FMVoice option"

record VM5VoiceLib =
  Programs :: "VM35VoicePC list"

text \<open>
  \<open>time.Time\<close> is a point on one line of instants; 0 is the zero value \<open>time.Time{}\<close>.
\<close>

type_synonym time = nat

record slot =
  midiChannel :: int
  "note" :: int
  realnote :: int
  flags :: flag
  finetune :: int
  pitch :: int
  velocity :: int
  instrument :: "VM35VoicePC option"
  time :: time

record midiChannelState =
  bankLSB :: "8 word"
  bankMSB :: "8 word"
  pc :: "8 word"
  volume :: "8 word"
  expression :: "8 word"
  pan :: "8 word"
  pitch :: "8 word"
  sustain :: "8 word"
  modulation :: "8 word"
  pitchSens :: "16 word"
  rpn :: "16 word"

text \<open>
  Modelled from the spec: the register-write interface \<open>ymf.Registers\<close> (package ymf is
  not among the sources), with its three call shapes and the register names of the spec.
  The controller only calls it; the model records the calls, oldest first.
\<close>

datatype ChannelRegister =
  KON | BLOCK | FNUM | ALG | LFO | PANPOT | CHPAN | VOLUME | EXPRESSION | BO | VELOCITY

datatype OpRegister =
  EAM | EVB | DAM | DVB | DT | KSL | KSR | WS | MULT | FB | AR | DR | SL | SR | RR | TL | XOF

datatype regWrite =
  WriteChannel int ChannelRegister int
  | WriteOperator int int OpRegister int
  | WriteTL int int int int

text \<open>
  The controller. \<open>registers\<close> is the record of the calls made on the register
  interface. Three fields stand for the environment: \<open>nows\<close> is the sequence of
  readings that successive calls of \<open>time.Now()\<close> return and \<open>tick\<close> counts the calls
  made so far; \<open>freqInt note pitch\<close> is the floating-point part of \<open>writeFrequency\<close>,
  the value of \<open>int(freq*ymfdata.FNUMCoef)\<close> for a note and a pitch.
\<close>

record Controller =
  registers :: "regWrite list"
  libraries :: "VM5VoiceLib list"
  midiChannelStates :: "midiChannelState list"
  slots :: "slot list"
  nows :: "nat \<Rightarrow> time"
  tick :: nat
  freqInt :: "int \<Rightarrow> int \<Rightarrow> int"

definition time_Now :: "Controller \<Rightarrow> time \<times> Controller" where
  "time_Now ctrl = (nows ctrl (tick ctrl), ctrl\<lparr>tick := tick ctrl + 1\<rparr>)"

definition emit :: "regWrite list \<Rightarrow> Controller \<Rightarrow> Controller" where
  "emit ws ctrl = ctrl\<lparr>registers := registers ctrl @ ws\<rparr>"

text \<open>Indexing the two arrays; an index out of range panics (\<open>None\<close>).\<close>

definition midiState :: "Controller \<Rightarrow> int \<Rightarrow> midiChannelState option" where
  "midiState ctrl ch =
     (if 0 \<le> ch \<and> ch < int (length (midiChannelStates ctrl))
      then Some (midiChannelStates ctrl ! nat ch) else None)"

definition getSlot :: "Controller \<Rightarrow> int \<Rightarrow> slot option" where
  "getSlot ctrl slotID =
     (if 0 \<le> slotID \<and> slotID < int (length (slots ctrl))
      then Some (slots ctrl ! nat slotID) else None)"

definition setMidiState :: "Controller \<Rightarrow> int \<Rightarrow> midiChannelState \<Rightarrow> Controller" where
  "setMidiState ctrl ch st =
     ctrl\<lparr>midiChannelStates := (midiChannelStates ctrl)[nat ch := st]\<rparr>"

definition setSlot :: "Controller \<Rightarrow> nat \<Rightarrow> slot \<Rightarrow> Controller" where
  "setSlot ctrl i sl = ctrl\<lparr>slots := (slots ctrl)[i := sl]\<rparr>"

text \<open>
  \<open>NewController\<close>: every slot and every MIDI channel state is the zero value of its
  type; \<open>n\<close> is \<open>ymfdata.ChannelCount\<close>.
\<close>

definition zeroSlot :: slot where
  "zeroSlot = \<lparr>midiChannel = 0, note = 0, realnote = 0, flags = 0, finetune = 0,
               pitch = 0, velocity = 0, instrument = None, time = 0\<rparr>"

definition zeroMidiChannelState :: midiChannelState where
  "zeroMidiChannelState =
     \<lparr>bankLSB = 0, bankMSB = 0, pc = 0, volume = 0, expression = 0, pan = 0, pitch = 0,
      sustain = 0, modulation = 0, pitchSens = 0, rpn = 0\<rparr>"

definition NewController ::
  "nat \<Rightarrow> VM5VoiceLib list \<Rightarrow> (nat \<Rightarrow> time) \<Rightarrow> (int \<Rightarrow> int \<Rightarrow> int) \<Rightarrow> Controller" where
  "NewController n libs clock fi =
     \<lparr>registers = [], libraries = libs,
      midiChannelStates = replicate 16 zeroMidiChannelState,
      slots = replicate n zeroSlot,
      nows = clock, tick = 0, freqInt = fi\<rparr>"

section \<open>The controller: register writes\<close>

definition ymfWriteSlotAllOps :: "OpRegister \<Rightarrow> int \<Rightarrow> int \<Rightarrow> regWrite list" where
  "ymfWriteSlotAllOps regbase slotID data =
     [WriteOperator slotID 0 regbase data, WriteOperator slotID 1 regbase data,
      WriteOperator slotID 2 regbase data, WriteOperator slotID 3 regbase data]"

definition ymfWriteSlotEachOps ::
  "OpRegister \<Rightarrow> int \<Rightarrow> int \<Rightarrow> int \<Rightarrow> int \<Rightarrow> int \<Rightarrow> regWrite list" where
  "ymfWriteSlotEachOps regbase slotID data1 data2 data3 data4 =
     [WriteOperator slotID 0 regbase data1, WriteOperator slotID 1 regbase data2,
      WriteOperator slotID 2 regbase data3, WriteOperator slotID 3 regbase data4]"

definition bool2int :: "bool \<Rightarrow> int" where
  "bool2int b = (if b then 1 else 0)"

text \<open>
  Go's integer division truncates towards zero, and \<open>x >> uint(n)\<close> on a signed 64-bit
  \<open>x\<close> shifts arithmetically by \<open>n\<close> read as an unsigned 64-bit count: a count of 64
  or more (every negative \<open>n\<close>) leaves only the sign.
\<close>

definition truncDiv :: "int \<Rightarrow> int \<Rightarrow> int" where
  "truncDiv a b = sgn a * sgn b * (\<bar>a\<bar> div \<bar>b\<bar>)"

definition shiftRight :: "int \<Rightarrow> int \<Rightarrow> int" where
  "shiftRight x n =
     (let count = n mod 2 ^ 64
      in if 64 \<le> count then (if x < 0 then - 1 else 0) else drop_bit (nat count) x)"

text \<open>The loop \<open>for 1024 < fnum { block++; fnum >>= 1 }\<close> of \<open>writeFrequency\<close>.\<close>

function renormalize :: "int \<Rightarrow> int \<Rightarrow> int \<times> int" where
  "renormalize blk fnm =
     (if 1024 < fnm then renormalize (blk + 1) (drop_bit 1 fnm) else (blk, fnm))"
  by pat_completeness auto
termination
  by (relation "measure (\<lambda>(blk, fnm). nat fnm)") (auto simp: drop_bit_eq_div)

declare renormalize.simps [simp del]

text \<open>
  \<open>writeFrequency\<close>: the frequency number and the block computed from the note and the
  pitch, and the three writes FNUM, BLOCK, KON in the order of the source.
\<close>

definition frequencyRegisters :: "Controller \<Rightarrow> int \<Rightarrow> int \<Rightarrow> int \<times> int" where
  "frequencyRegisters ctrl nt ptch =
     (let blk0 = truncDiv nt 12;
          blk1 = (if 7 < blk0 then 7 else blk0);
          fnm0 = shiftRight (freqInt ctrl nt ptch) (blk1 - 1);
          (blk2, fnm1) = (if fnm0 < 0 then (blk1, 0) else renormalize blk1 fnm0);
          blk3 = (if blk2 < 0 then 0 else if 7 < blk2 then 7 else blk2)
      in (fnm1, blk3))"

definition writeFrequencyWrites :: "Controller \<Rightarrow> int \<Rightarrow> int \<Rightarrow> int \<Rightarrow> bool \<Rightarrow> regWrite list" where
  "writeFrequencyWrites ctrl slotID nt ptch keyon =
     (let (fnm, blk) = frequencyRegisters ctrl nt ptch;
          k = (if keyon then 1 else 0)
      in [WriteChannel slotID FNUM fnm, WriteChannel slotID BLOCK blk,
          WriteChannel slotID KON k])"

definition writeFrequency :: "Controller \<Rightarrow> int \<Rightarrow> int \<Rightarrow> int \<Rightarrow> bool \<Rightarrow> Controller" where
  "writeFrequency ctrl slotID nt ptch keyon =
     emit (writeFrequencyWrites ctrl slotID nt ptch keyon) ctrl"

text \<open>
  \<open>writeModulation\<close>: a nil instrument, a nil FM voice or fewer than four operators
  panic.
\<close>

definition writeModulationWrites ::
  "int \<Rightarrow> VM35VoicePC option \<Rightarrow> bool \<Rightarrow> regWrite list option" where
  "writeModulationWrites slotID instr state =
     (case instr of None \<Rightarrow> None
      | Some ins \<Rightarrow>
        (case FmVoice ins of None \<Rightarrow> None
         | Some fmvoice \<Rightarrow>
           (let ops = Operators fmvoice
            in if length ops < 4 then None
               else Some (ymfWriteSlotEachOps EVB slotID
                      (bool2int (Evb (ops ! 0) \<or> state)) (bool2int (Evb (ops ! 1) \<or> state))
                      (bool2int (Evb (ops ! 2) \<or> state)) (bool2int (Evb (ops ! 3) \<or> state))))))"

definition writeModulation ::
  "Controller \<Rightarrow> int \<Rightarrow> VM35VoicePC option \<Rightarrow> bool \<Rightarrow> Controller option" where
  "writeModulation ctrl slotID instr state =
     map_option (\<lambda>ws. emit ws ctrl) (writeModulationWrites slotID instr state)"

text \<open>\<open>ymfWriteVelocity\<close>: one \<open>WriteTL\<close> per operator of the voice, counted from \<open>i\<close>.\<close>

fun ymfWriteVelocityFrom ::
  "int \<Rightarrow> int \<Rightarrow> int \<Rightarrow> VM35FMOperator list \<Rightarrow> regWrite list option" where
  "ymfWriteVelocityFrom slotID vel i [] = Some []"
| "ymfWriteVelocityFrom slotID vel i (op # ops) =
     (let tlModulator = Tl op
      in case ymfConvertVelocity tlModulator vel of None \<Rightarrow> None
         | Some tlCarrier \<Rightarrow>
           map_option (\<lambda>ws. WriteTL slotID i tlCarrier tlModulator # ws)
             (ymfWriteVelocityFrom slotID vel (i + 1) ops))"

definition ymfWriteVelocityWrites ::
  "int \<Rightarrow> int \<Rightarrow> VM35VoicePC \<Rightarrow> regWrite list option" where
  "ymfWriteVelocityWrites slotID vel instr =
     (case FmVoice instr of None \<Rightarrow> None
      | Some fmvoice \<Rightarrow> ymfWriteVelocityFrom slotID vel 0 (Operators fmvoice))"

text \<open>\<open>ymfWriteInstrument\<close>: the seventeen writes of one operator, in source order.\<close>

definition operatorWrites :: "int \<Rightarrow> int \<Rightarrow> VM35FMOperator \<Rightarrow> regWrite list" where
  "operatorWrites slotID i op =
     [WriteOperator slotID i EAM (bool2int (Eam op)),
      WriteOperator slotID i EVB (bool2int (Evb op)),
      WriteOperator slotID i DAM (Dam op),
      WriteOperator slotID i DVB (Dvb op),
      WriteOperator slotID i DT (Dt op),
      WriteOperator slotID i KSL (Ksl op),
      WriteOperator slotID i KSR (bool2int (Ksr op)),
      WriteOperator slotID i WS (Ws op),
      WriteOperator slotID i MULT (Multi op),
      WriteOperator slotID i FB (Fb op),
      WriteOperator slotID i AR (Ar op),
      WriteOperator slotID i DR (Dr op),
      WriteOperator slotID i SL (Sl op),
      WriteOperator slotID i SR (Sr op),
      WriteOperator slotID i RR (Rr op),
      WriteOperator slotID i TL (Tl op),
      WriteOperator slotID i XOF (bool2int (Xof op))]"

fun operatorsWritesFrom :: "int \<Rightarrow> int \<Rightarrow> VM35FMOperator list \<Rightarrow> regWrite list" where
  "operatorsWritesFrom slotID i [] = []"
| "operatorsWritesFrom slotID i (op # ops) =
     operatorWrites slotID i op @ operatorsWritesFrom slotID (i + 1) ops"

definition ymfWriteInstrumentWrites :: "int \<Rightarrow> VM35VoicePC \<Rightarrow> regWrite list option" where
  "ymfWriteInstrumentWrites slotID instr =
     (case FmVoice instr of None \<Rightarrow> None
      | Some fmvoice \<Rightarrow>
          Some (ymfWriteSlotAllOps TL slotID 0x3f
                @ operatorsWritesFrom slotID 0 (Operators fmvoice)
                @ [WriteChannel slotID ALG (Alg fmvoice),
                   WriteChannel slotID LFO (Lfo fmvoice),
                   WriteChannel slotID PANPOT (Panpot fmvoice),
                   WriteChannel slotID BO (Bo fmvoice)]))"

text \<open>The writes to the KON register, for stating where they occur in the record.\<close>

fun isKON :: "regWrite \<Rightarrow> bool" where
  "isKON (WriteChannel slotID reg v) = (reg = KON)"
| "isKON (WriteOperator slotID i reg v) = False"
| "isKON (WriteTL slotID i c m) = False"

section \<open>The controller: slots\<close>

definition killWrites :: "int \<Rightarrow> regWrite list" where
  "killWrites slotID =
     ymfWriteSlotAllOps SL slotID 0 @ ymfWriteSlotAllOps RR slotID 15
     @ ymfWriteSlotAllOps KSL slotID 0 @ ymfWriteSlotAllOps TL slotID 0x3f"

definition releaseSlot :: "Controller \<Rightarrow> int \<Rightarrow> bool \<Rightarrow> Controller option" where
  "releaseSlot ctrl slotID killed =
     (case getSlot ctrl slotID of None \<Rightarrow> None
      | Some sl \<Rightarrow>
        (let c1 = writeFrequency ctrl slotID (realnote sl) (slot.pitch sl) False;
             (t, c2) = time_Now c1;
             c3 = setSlot c2 (nat slotID) (sl\<lparr>midiChannel := - 1, time := t, flags := flagFree\<rparr>)
         in Some (if killed then emit (killWrites slotID) c3 else c3)))"

text \<open>
  \<open>for i, slot := range ctrl.slots { ... }\<close>: the body runs on the slot indices in
  order, on the controller as the previous iterations left it.
\<close>

fun forSlots ::
  "(nat \<Rightarrow> Controller \<Rightarrow> Controller option) \<Rightarrow> nat list \<Rightarrow> Controller \<Rightarrow> Controller option" where
  "forSlots body [] ctrl = Some ctrl"
| "forSlots body (i # is) ctrl =
     (case body i ctrl of None \<Rightarrow> None | Some c \<Rightarrow> forSlots body is c)"

definition eachSlot ::
  "(nat \<Rightarrow> Controller \<Rightarrow> Controller option) \<Rightarrow> Controller \<Rightarrow> Controller option" where
  "eachSlot body ctrl = forSlots body [0..<length (slots ctrl)] ctrl"

definition releaseSustain :: "Controller \<Rightarrow> int \<Rightarrow> Controller option" where
  "releaseSustain ctrl midich =
     eachSlot (\<lambda>i c. let sl = slots c ! i
                      in if midiChannel sl = midich \<and> flags sl AND flagSustain \<noteq> 0
                         then releaseSlot c (int i) False else Some c) ctrl"

definition NoteOff :: "Controller \<Rightarrow> int \<Rightarrow> int \<Rightarrow> Controller option" where
  "NoteOff ctrl ch nt =
     (case midiState ctrl ch of None \<Rightarrow> None
      | Some st \<Rightarrow>
        (let sus = sustain st
         in eachSlot (\<lambda>slotID c. let sl = slots c ! slotID
                       in if midiChannel sl = ch \<and> note sl = nt
                          then (if sus < 0x40 then releaseSlot c (int slotID) False
                                else Some (setSlot c slotID (sl\<lparr>flags := flags sl OR flagSustain\<rparr>)))
                          else Some c) ctrl))"

text \<open>
  \<open>findFreeSlot\<close>. The first loop returns the first index whose slot has the Free flag;
  the second keeps the first slot whose time is before every earlier candidate, starting
  from the reading of the clock.
\<close>

fun firstFree :: "slot list \<Rightarrow> nat \<Rightarrow> nat option" where
  "firstFree [] i = None"
| "firstFree (sl # sls) i =
     (if flags sl AND flagFree \<noteq> 0 then Some i else firstFree sls (Suc i))"

definition oldestStep :: "slot list \<Rightarrow> nat \<Rightarrow> int \<times> time \<Rightarrow> int \<times> time" where
  "oldestStep sls i = (\<lambda>(oldest, oldesttime).
     if time (sls ! i) < oldesttime then (int i, time (sls ! i)) else (oldest, oldesttime))"

definition findOldest :: "slot list \<Rightarrow> time \<Rightarrow> int \<times> time" where
  "findOldest sls now = fold (oldestStep sls) [0..<length sls] (- 1, now)"

definition findFreeSlot :: "Controller \<Rightarrow> int \<Rightarrow> int \<Rightarrow> (int \<times> Controller) option" where
  "findFreeSlot ctrl midich nt =
     (case firstFree (slots ctrl) 0 of Some i \<Rightarrow> Some (int i, ctrl)
      | None \<Rightarrow>
        (let (now, c1) = time_Now ctrl;
             oldest = fst (findOldest (slots c1) now)
         in if 0 \<le> oldest
            then map_option (\<lambda>c2. (oldest, c2)) (releaseSlot c1 oldest True)
            else Some (- 1, c1)))"

section \<open>The controller: instrument lookup\<close>

fun searchPrograms :: "midiChannelState \<Rightarrow> int \<Rightarrow> VM35VoicePC list \<Rightarrow> VM35VoicePC option" where
  "searchPrograms s nt [] = None"
| "searchPrograms s nt (p # ps) =
     (if \<not> (Pc p = unat (pc s) \<and> BankLsb p = unat (bankLSB s) \<and> BankMsb p = unat (bankMSB s))
      then searchPrograms s nt ps
      else if DrumNote p \<noteq> 0 \<and> DrumNote p \<noteq> nt then searchPrograms s nt ps
      else Some p)"

fun searchLibraries :: "midiChannelState \<Rightarrow> int \<Rightarrow> VM5VoiceLib list \<Rightarrow> VM35VoicePC option" where
  "searchLibraries s nt [] = None"
| "searchLibraries s nt (lib # libs) =
     (case searchPrograms s nt (Programs lib) of Some p \<Rightarrow> Some p
      | None \<Rightarrow> searchLibraries s nt libs)"

text \<open>\<open>ctrl.libraries[0].Programs[0]\<close>; either index out of range panics.\<close>

definition firstProgram :: "VM5VoiceLib list \<Rightarrow> VM35VoicePC option" where
  "firstProgram libs =
     (case libs of [] \<Rightarrow> None
      | lib # _ \<Rightarrow> (case Programs lib of [] \<Rightarrow> None | p # _ \<Rightarrow> Some p))"

function getInstrument ::
  "Controller \<Rightarrow> int \<Rightarrow> int \<Rightarrow> ((VM35VoicePC \<times> bool) \<times> Controller) option" where
  "getInstrument ctrl midich nt =
     (if \<not> (0 \<le> midich \<and> midich < int (length (midiChannelStates ctrl))) then None
      else (let s = midiChannelStates ctrl ! nat midich
            in case searchLibraries s nt (libraries ctrl) of
                 Some p \<Rightarrow> Some ((p, True), ctrl)
               | None \<Rightarrow>
                   if bankMSB s = 125 \<and> pc s \<noteq> 1
                   then getInstrument (setMidiState ctrl midich (s\<lparr>pc := 1\<rparr>)) midich nt
                   else map_option (\<lambda>p. ((p, False), ctrl)) (firstProgram (libraries ctrl))))"
  by pat_completeness auto
termination
  by (relation "measure (\<lambda>(ctrl, midich, nt).
        if pc (midiChannelStates ctrl ! nat midich) \<noteq> 1 then 1 else 0)")
     (auto simp: setMidiState_def)

declare getInstrument.simps [simp del]

section \<open>The controller: notes\<close>

definition occupySlot ::
  "Controller \<Rightarrow> int \<Rightarrow> int \<Rightarrow> int \<Rightarrow> int \<Rightarrow> VM35VoicePC \<Rightarrow> Controller option" where
  "occupySlot ctrl slotID midich nt vel instr =
     (case midiState ctrl midich of None \<Rightarrow> None
      | Some state \<Rightarrow>
        (case getSlot ctrl slotID of None \<Rightarrow> None
         | Some sl \<Rightarrow>
           (case (if DrumNote instr \<noteq> 0 then map_option DrumKey (FmVoice instr) else Some nt) of
              None \<Rightarrow> None
            | Some nt1 \<Rightarrow>
              (let fl = (if word_of_int modThresh \<le> modulation state then 0 OR flagVibrato else 0);
                   (t, c1) = time_Now ctrl;
                   ptch = 0 + sint (pitch state);
                   nt2 = nt1 + 2 - 12;
                   c2 = setSlot c1 (nat slotID)
                          (sl\<lparr>midiChannel := midich, note := nt, flags := fl, time := t,
                              velocity := vel, finetune := 0, slot.pitch := ptch,
                              instrument := Some instr, realnote := nt2\<rparr>)
               in case ymfWriteInstrumentWrites slotID instr of None \<Rightarrow> None
                  | Some wsI \<Rightarrow>
                    (case writeModulationWrites slotID (Some instr) (fl AND flagVibrato \<noteq> 0) of
                       None \<Rightarrow> None
                     | Some wsM \<Rightarrow>
                       (case ymfWriteVelocityWrites slotID vel instr of None \<Rightarrow> None
                        | Some wsV \<Rightarrow>
                          Some (writeFrequency
                                  (emit (wsI @ wsM
                                         @ [WriteChannel slotID CHPAN (uint (pan state)),
                                            WriteChannel slotID VOLUME (uint (volume state)),
                                            WriteChannel slotID EXPRESSION (uint (expression state))]
                                         @ wsV) c2)
                                  slotID nt2 ptch True)))))))"

definition NoteOn :: "Controller \<Rightarrow> int \<Rightarrow> int \<Rightarrow> int \<Rightarrow> Controller option" where
  "NoteOn ctrl ch nt vel =
     (if vel = 0 then NoteOff ctrl ch nt
      else (case getInstrument ctrl ch nt of None \<Rightarrow> None
            | Some ((instr, ok), c1) \<Rightarrow>
              if \<not> ok then Some c1
              else if VoiceType instr \<noteq> VoiceType_FM then Some c1
              else (case findFreeSlot c1 ch nt of None \<Rightarrow> None
                    | Some (slotID, c2) \<Rightarrow>
                      if 0 \<le> slotID then occupySlot c2 slotID ch nt vel instr
                      else Some c2)))"

section \<open>The controller: control changes\<close>

text \<open>The loop bodies of \<open>ControlChange\<close>, one per controller that touches the slots.\<close>

definition modulationBody :: "int \<Rightarrow> int \<Rightarrow> nat \<Rightarrow> Controller \<Rightarrow> Controller option" where
  "modulationBody midich val i c =
     (let sl = slots c ! i
      in if midiChannel sl = midich
         then (let fl0 = flags sl;
                   (t, c1) = time_Now c;
                   fl = (if modThresh \<le> val then fl0 OR flagVibrato else fl0 AND NOT flagVibrato);
                   c2 = setSlot c1 i (sl\<lparr>time := t, flags := fl\<rparr>)
               in if fl \<noteq> fl0 then writeModulation c2 (int i) (instrument sl) (modThresh \<le> val)
                  else Some c2)
         else Some c)"

definition mirrorBody ::
  "int \<Rightarrow> ChannelRegister \<Rightarrow> int \<Rightarrow> nat \<Rightarrow> Controller \<Rightarrow> Controller option" where
  "mirrorBody midich reg val i c =
     (let sl = slots c ! i
      in if midiChannel sl = midich
         then (let (t, c1) = time_Now c
               in Some (emit [WriteChannel (int i) reg val] (setSlot c1 i (sl\<lparr>time := t\<rparr>))))
         else Some c)"

definition notesOffBody :: "int \<Rightarrow> nat \<Rightarrow> Controller \<Rightarrow> Controller option" where
  "notesOffBody midich i c =
     (let sl = slots c ! i
      in if midiChannel sl = midich
         then (case midiState c midich of None \<Rightarrow> None
               | Some st \<Rightarrow>
                   if sustain st < 0x40 then releaseSlot c (int i) False
                   else Some (setSlot c i (sl\<lparr>flags := flags sl OR flagSustain\<rparr>)))
         else Some c)"

definition soundsOffBody :: "int \<Rightarrow> nat \<Rightarrow> Controller \<Rightarrow> Controller option" where
  "soundsOffBody midich i c =
     (if midiChannel (slots c ! i) = midich then releaseSlot c (int i) False else Some c)"

definition ControlChange :: "Controller \<Rightarrow> int \<Rightarrow> int \<Rightarrow> int \<Rightarrow> Controller option" where
  "ControlChange ctrl midich cc val =
     (if cc = ccSoundsOff then eachSlot (soundsOffBody midich) ctrl
      else if cc = ccNotesOff then eachSlot (notesOffBody midich) ctrl
      else if cc \<in> {ccBankMSB, ccBankLSB, ccModulation, ccVolume, ccExpression, ccPan,
                     ccSustainPedal, ccRPNHi, ccRPNLo, ccNRPNLo, ccNRPNHi,
                     ccDataEntryHi, ccDataEntryLo}
      then (case midiState ctrl midich of None \<Rightarrow> None
            | Some st \<Rightarrow>
              if cc = ccBankMSB then Some (setMidiState ctrl midich (st\<lparr>bankMSB := word_of_int val\<rparr>))
              else if cc = ccBankLSB then Some (setMidiState ctrl midich (st\<lparr>bankLSB := word_of_int val\<rparr>))
              else if cc = ccModulation
              then eachSlot (modulationBody midich val)
                     (setMidiState ctrl midich (st\<lparr>modulation := word_of_int val\<rparr>))
              else if cc = ccVolume
              then eachSlot (mirrorBody midich VOLUME val)
                     (setMidiState ctrl midich (st\<lparr>volume := word_of_int val\<rparr>))
              else if cc = ccExpression
              then eachSlot (mirrorBody midich EXPRESSION val)
                     (setMidiState ctrl midich (st\<lparr>expression := word_of_int val\<rparr>))
              else if cc = ccPan
              then eachSlot (mirrorBody midich CHPAN val)
                     (setMidiState ctrl midich (st\<lparr>pan := word_of_int val\<rparr>))
              else if cc = ccSustainPedal
              then (let c1 = setMidiState ctrl midich (st\<lparr>sustain := word_of_int val\<rparr>)
                    in if val < 0x40 then releaseSustain c1 midich else Some c1)
              else if cc = ccRPNHi
              then Some (setMidiState ctrl midich
                     (st\<lparr>rpn := (rpn st AND 0x007f) OR push_bit 7 (word_of_int val)\<rparr>))
              else if cc = ccRPNLo
              then Some (setMidiState ctrl midich
                     (st\<lparr>rpn := (rpn st AND 0x3f80) OR word_of_int val\<rparr>))
              else if cc = ccNRPNLo \<or> cc = ccNRPNHi
              then Some (setMidiState ctrl midich (st\<lparr>rpn := 0x3fff\<rparr>))
              else if cc = ccDataEntryHi
              then (if rpn st = 0
                    then Some (setMidiState ctrl midich
                           (st\<lparr>pitchSens := word_of_int val * 100 + pitchSens st mod 100\<rparr>))
                    else Some ctrl)
              else (if rpn st = 0
                    then Some (setMidiState ctrl midich
                           (st\<lparr>pitchSens := word_of_int val + pitchSens st div 100 * 100\<rparr>))
                    else Some ctrl))
      else Some ctrl)"

text \<open>A controller as \<open>NewController\<close> builds it, with two slots and no library.\<close>

definition exampleController :: Controller where
  "exampleController = NewController 2 [] (\<lambda>n. n + 1) (\<lambda>nt ptch. 0)"

text \<open>
  A voice library with one FM program at bank 125, program 1, and a controller whose MIDI
  channel 0 has selected bank 125, program 5.
\<close>

definition exampleFMOperator :: VM35FMOperator where
  "exampleFMOperator =
     \<lparr>Eam = False, Evb = False, Dam = 0, Dvb = 0, Dt = 0, Ksl = 0, Ksr = False, Ws = 0,
      Multi = 1, Fb = 0, Ar = 15, Dr = 0, Sl = 0, Sr = 0, Rr = 15, Tl = 10, Xof = False\<rparr>"

definition exampleProgram :: VM35VoicePC where
  "exampleProgram =
     \<lparr>Pc = 1, BankLsb = 0, BankMsb = 125, DrumNote = 0, VoiceType = VoiceType_FM,
      FmVoice = Some \<lparr>DrumKey = 0, Operators = replicate 4 exampleFMOperator,
                      Alg = 1, Lfo = 0, Panpot = 15, Bo = 1\<rparr>\<rparr>"

definition exampleLibrary :: VM5VoiceLib where
  "exampleLibrary = \<lparr>Programs = [exampleProgram]\<rparr>"

definition exampleState125 :: midiChannelState where
  "exampleState125 = zeroMidiChannelState\<lparr>bankMSB := 125, pc := 5\<rparr>"

definition exampleController125 :: Controller where
  "exampleController125 =
     setMidiState (NewController 2 [exampleLibrary] (\<lambda>n. n + 1) (\<lambda>nt ptch. 0)) 0 exampleState125"

text \<open>The same program filed under bank 0, program 0, the selection of a new controller.\<close>

definition exampleProgram0 :: VM35VoicePC where
  "exampleProgram0 = exampleProgram\<lparr>Pc := 0, BankMsb := 0\<rparr>"

definition exampleLibrary0 :: VM5VoiceLib where
  "exampleLibrary0 = \<lparr>Programs = [exampleProgram0]\<rparr>"

text \<open>
  Three controllers with that library: a new one with two slots, the same with the Free
  flag on slot 1, and one without any slot.
\<close>

definition exampleFresh :: Controller where
  "exampleFresh = NewController 2 [exampleLibrary0] (\<lambda>n. n + 1) (\<lambda>nt ptch. 0)"



text \<open>
  A controller with slot 0 sounding note 60 of MIDI channel 0 and slot 1 sounding the same
  note of MIDI channel 1, and the same with the sustain pedal of channel 0 held down.
\<close>

definition exampleSounding :: Controller where
  "exampleSounding =
     exampleFresh\<lparr>slots := [zeroSlot\<lparr>midiChannel := 0, note := 60, time := 1\<rparr>,
                             zeroSlot\<lparr>midiChannel := 1, note := 60, time := 1\<rparr>]\<rparr>"

definition examplePedalState :: midiChannelState where
  "examplePedalState = zeroMidiChannelState\<lparr>sustain := 0x7f\<rparr>"

definition examplePedal :: Controller where
  "examplePedal = setMidiState exampleSounding 0 examplePedalState"

section \<open>Properties of the velocity mapping\<close>

lemma velocitytable_length: "length velocitytable = 128"
  by (simp add: velocitytable_def)

lemma velocitytable_first: "velocitytable ! 0 = 0"
  by (simp add: velocitytable_def)

lemma velocitytable_last: "velocitytable ! 127 = 127"
  by (simp add: velocitytable_def)

lemma ymfConvertVelocity_full:
  "ymfConvertVelocity data 127 = Some (0x3f - (0x3f - data) * 127 div 128)"
  by (simp add: ymfConvertVelocity_def velocitytable_length velocitytable_last drop_bit_eq_div)

lemma ymfConvertVelocity_zero: "ymfConvertVelocity data 0 = Some 0x3f"
  by (simp add: ymfConvertVelocity_def velocitytable_length velocitytable_first)

text \<open>
  C3 (as stated, refuted). At velocity 127 the table entry is 127, not 128, so the
  product is divided by 128 after multiplying by 127: a total level of 0 maps to 1.
\<close>

theorem C3_velocity_full_not_identity:
  "ymfConvertVelocity 0 127 = Some 1 \<and> ymfConvertVelocity 0 127 \<noteq> Some 0"
  by (simp add: ymfConvertVelocity_full)

text \<open>
  C3 (amended). For every total level \<open>tl\<close> in 0..0x3f, velocity 127 maps \<open>tl\<close> to
  \<open>tl + 1\<close> capped at 0x3f (so only 0x3f is mapped to itself), and velocity 0 maps every
  \<open>tl\<close> to 0x3f.
\<close>

theorem C3_velocity_mapping:
  assumes "0 \<le> lvl" and "lvl \<le> 0x3f"
  shows "ymfConvertVelocity lvl 127 = Some (min (lvl + 1) 0x3f)
       \<and> ymfConvertVelocity lvl 0 = Some 0x3f"
proof -
  have "(0x3f - lvl) * 127 div 128 = (if lvl = 0x3f then 0 else 0x3f - lvl - 1)"
    using assms by auto
  then have "ymfConvertVelocity lvl 127 = Some (min (lvl + 1) 0x3f)"
    using assms by (simp add: ymfConvertVelocity_full min_def)
  then show ?thesis
    by (simp add: ymfConvertVelocity_zero)
qed

theorem C3_velocity_mapping_witness:
  "(0::int) \<le> 10 \<and> (10::int) \<le> 0x3f
   \<and> ymfConvertVelocity 10 127 = Some 11 \<and> ymfConvertVelocity 10 0 = Some 0x3f"
  using C3_velocity_mapping [of 10] by simp

section \<open>Properties of the channel\<close>

lemma alg_cases:
  assumes "0 \<le> (a::int)" and "a < 8"
  shows "a = 0 \<or> a = 1 \<or> a = 2 \<or> a = 3 \<or> a = 4 \<or> a = 5 \<or> a = 6 \<or> a = 7"
  using assms by arith

lemma isOff_alg_range: "isOff ch = Some b \<Longrightarrow> 0 \<le> alg ch \<and> alg ch < 8"
  by (simp add: isOff_def CarrierMatrix_def split: if_splits)

text \<open>
  C1. If every carrier of the current algorithm (the rows of \<open>CarrierMatrix\<close>, algorithms
  0..7) is in stage Off, \<open>next\<close> returns exactly (0, 0). No operator is evaluated: the
  result does not depend on the operators' \<open>next\<close> at all, and the channel comes back
  with its operators and feedback lines untouched; only the LFO phase has advanced.
\<close>

theorem C1_next_silent_when_carriers_off:
  assumes "isOff ch = Some True"
  shows "Channel_next opNext MM modTableIndex ch =
           ((0, 0), ch\<lparr>modIndexFrac64 := modIndexFrac64 ch + lfoFrequency ch\<rparr>)"
proof -
  obtain a b c d where ops: "operators ch = Array4 a b c d"
    by (cases "operators ch") auto
  from assms have "0 \<le> alg ch \<and> alg ch < 8" by (rule isOff_alg_range)
  then consider "alg ch = 0" | "alg ch = 1" | "alg ch = 2" | "alg ch = 3"
    | "alg ch = 4" | "alg ch = 5" | "alg ch = 6" | "alg ch = 7"
    using alg_cases by blast
  then show ?thesis
  proof cases
    case 1 with assms ops show ?thesis
      by (simp add: isOff_def CarrierMatrix_def Channel_next_def)
  next
    case 2 with assms ops show ?thesis
      by (simp add: isOff_def CarrierMatrix_def Channel_next_def)
  next
    case 3 with assms ops show ?thesis
      by (simp add: isOff_def CarrierMatrix_def Channel_next_def)
  next
    case 4 with assms ops show ?thesis
      by (simp add: isOff_def CarrierMatrix_def Channel_next_def)
  next
    case 5 with assms ops show ?thesis
      by (simp add: isOff_def CarrierMatrix_def Channel_next_def)
  next
    case 6 with assms ops show ?thesis
      by (simp add: isOff_def CarrierMatrix_def Channel_next_def)
  next
    case 7 with assms ops show ?thesis
      by (simp add: isOff_def CarrierMatrix_def Channel_next_def)
  next
    case 8 with assms ops show ?thesis
      by (simp add: isOff_def CarrierMatrix_def Channel_next_def)
  qed
qed

theorem C1_next_silent_witness:
  "isOff exampleChannel = Some True
   \<and> Channel_next (\<lambda>op i m. (1, op)) 1 (\<lambda>w. 0) exampleChannel =
       ((0, 0), exampleChannel\<lparr>modIndexFrac64 :=
                  modIndexFrac64 exampleChannel + lfoFrequency exampleChannel\<rparr>)"
proof -
  have off: "isOff exampleChannel = Some True"
    by (simp add: isOff_def exampleChannel_def exampleOperator_def CarrierMatrix_def)
  show ?thesis
    using off C1_next_silent_when_carriers_off [OF off, of "\<lambda>op i m. (1, op)" 1 "\<lambda>w. 0"]
    by simp
qed

text \<open>
  C2 (as stated, refuted). Setting the algorithm a channel already has is not without
  effect: the four feedback registers are zeroed after the conditional reset, whatever
  the algorithm was. Here the channel has algorithm 0 and \<open>feedback1Curr = 1\<close>.
\<close>

theorem C2_setALG_same_clears_feedback:
  "alg exampleChannel = 0 \<and> feedback1Curr exampleChannel = 1
   \<and> map_option feedback1Curr
        (setALG (\<lambda>p. p) (\<lambda>e. e) exampleModulatorMatrix exampleChannel 0) = Some 0"
  by (simp add: setALG_def exampleChannel_def exampleModulatorMatrix_def CarrierMatrix_def)

text \<open>
  C2 (amended). For an algorithm \<open>v\<close> with a row in the modulator matrix, \<open>setALG\<close>
  always leaves \<open>alg = v\<close>, the four feedback registers \<open>feedback1Prev\<close>,
  \<open>feedback1Curr\<close>, \<open>feedback3Prev\<close>, \<open>feedback3Curr\<close> at 0 and every operator's
  \<open>isModulator\<close> equal to its entry of the row. With \<open>v\<close> equal to the current
  algorithm there is no reset: nothing else changes (phase and envelope generators,
  \<open>feedbackOut1\<close>, \<open>feedbackOut3\<close> and the LFO phase stay). With a different \<open>v\<close>
  the channel is reset first: \<open>feedbackOut1\<close>, \<open>feedbackOut3\<close> and the LFO phase are 0
  and every operator's phase and envelope generator has been reset.
\<close>

theorem C2_setALG:
  assumes "0 \<le> v" and "v < int (length M)"
  shows "\<exists>ch'. setALG pgReset egReset M ch v = Some ch'
     \<and> alg ch' = v
     \<and> feedback1Prev ch' = 0 \<and> feedback1Curr ch' = 0
     \<and> feedback3Prev ch' = 0 \<and> feedback3Curr ch' = 0
     \<and> map4 isModulator (operators ch') = M ! nat v
     \<and> map4 feedbackCoef (operators ch') = map4 feedbackCoef (operators ch)
     \<and> (alg ch = v \<longrightarrow>
          ch' = ch\<lparr>feedback1Prev := 0, feedback1Curr := 0,
                   feedback3Prev := 0, feedback3Curr := 0,
                   operators := operators ch'\<rparr>
          \<and> map4 phaseGenerator (operators ch') = map4 phaseGenerator (operators ch)
          \<and> map4 envelopeGenerator (operators ch') = map4 envelopeGenerator (operators ch))
     \<and> (alg ch \<noteq> v \<longrightarrow>
          feedbackOut1 ch' = 0 \<and> feedbackOut3 ch' = 0 \<and> modIndexFrac64 ch' = 0
          \<and> map4 phaseGenerator (operators ch')
              = map4 (\<lambda>op. pgReset (phaseGenerator op)) (operators ch)
          \<and> map4 envelopeGenerator (operators ch')
              = map4 (\<lambda>op. egReset (envelopeGenerator op)) (operators ch))"
proof -
  obtain a b c d where ops: "operators ch = Array4 a b c d"
    by (cases "operators ch") auto
  obtain m1 m2 m3 m4 where row: "M ! nat v = Array4 m1 m2 m3 m4"
    by (cases "M ! nat v") auto
  show ?thesis
  proof (cases "alg ch = v")
    case True
    with assms ops row show ?thesis
      by (simp add: setALG_def)
  next
    case False
    with assms ops row show ?thesis
      by (simp add: setALG_def reset_def)
  qed
qed

theorem C2_setALG_witness:
  "(0::int) \<le> 4 \<and> (4::int) < int (length exampleModulatorMatrix) \<and> alg exampleChannel \<noteq> 4
   \<and> (\<exists>ch'. setALG (\<lambda>p. p) (\<lambda>e. e\<lparr>stage := stageOff\<rparr>)
               exampleModulatorMatrix exampleChannel 4 = Some ch'
       \<and> alg ch' = 4 \<and> feedback1Prev ch' = 0 \<and> feedback1Curr ch' = 0
       \<and> feedback3Prev ch' = 0 \<and> feedback3Curr ch' = 0
       \<and> feedbackOut1 ch' = 0 \<and> feedbackOut3 ch' = 0 \<and> modIndexFrac64 ch' = 0)
   \<and> (0::int) \<le> 0 \<and> (0::int) < int (length exampleModulatorMatrix) \<and> alg exampleChannel = 0
   \<and> (\<exists>ch'. setALG (\<lambda>p. p) (\<lambda>e. e\<lparr>stage := stageOff\<rparr>)
               exampleModulatorMatrix exampleChannel 0 = Some ch'
       \<and> ch' = exampleChannel\<lparr>feedback1Prev := 0, feedback1Curr := 0,
                   feedback3Prev := 0, feedback3Curr := 0, operators := operators ch'\<rparr>
       \<and> map4 envelopeGenerator (operators ch')
           = map4 envelopeGenerator (operators exampleChannel))"
proof -
  have h: "(0::int) \<le> 4" "(4::int) < int (length exampleModulatorMatrix)"
      "alg exampleChannel \<noteq> 4"
    by (simp_all add: exampleModulatorMatrix_def CarrierMatrix_def exampleChannel_def)
  have k: "(0::int) \<le> 0" "(0::int) < int (length exampleModulatorMatrix)"
      "alg exampleChannel = 0"
    by (simp_all add: exampleModulatorMatrix_def CarrierMatrix_def exampleChannel_def)
  from C2_setALG [OF h(1) h(2), of "\<lambda>p. p" "\<lambda>e. e\<lparr>stage := stageOff\<rparr>" exampleChannel] h
  have a: "\<exists>ch'. setALG (\<lambda>p. p) (\<lambda>e. e\<lparr>stage := stageOff\<rparr>)
               exampleModulatorMatrix exampleChannel 4 = Some ch'
       \<and> alg ch' = 4 \<and> feedback1Prev ch' = 0 \<and> feedback1Curr ch' = 0
       \<and> feedback3Prev ch' = 0 \<and> feedback3Curr ch' = 0
       \<and> feedbackOut1 ch' = 0 \<and> feedbackOut3 ch' = 0 \<and> modIndexFrac64 ch' = 0"
    by blast
  from C2_setALG [OF k(1) k(2), of "\<lambda>p. p" "\<lambda>e. e\<lparr>stage := stageOff\<rparr>" exampleChannel] k
  have b: "\<exists>ch'. setALG (\<lambda>p. p) (\<lambda>e. e\<lparr>stage := stageOff\<rparr>)
               exampleModulatorMatrix exampleChannel 0 = Some ch'
       \<and> ch' = exampleChannel\<lparr>feedback1Prev := 0, feedback1Curr := 0,
                   feedback3Prev := 0, feedback3Curr := 0, operators := operators ch'\<rparr>
       \<and> map4 envelopeGenerator (operators ch')
           = map4 envelopeGenerator (operators exampleChannel)"
    by blast
  from a b h k show ?thesis by blast
qed

section \<open>Properties of writeFrequency\<close>

lemma renormalize_bounds:
  "0 \<le> fnm \<Longrightarrow> 0 \<le> snd (renormalize blk fnm) \<and> snd (renormalize blk fnm) \<le> 1024"
proof (induction blk fnm rule: renormalize.induct)
  case (1 blk fnm)
  show ?case
  proof (cases "1024 < fnm")
    case True
    then have "0 \<le> drop_bit 1 fnm" by (simp add: drop_bit_eq_div)
    with "1.IH" True show ?thesis by (subst (1 2) renormalize.simps) simp
  next
    case False
    with "1.prems" show ?thesis by (subst (1 2) renormalize.simps) simp
  qed
qed

lemma frequencyRegisters_bounds:
  "0 \<le> fst (frequencyRegisters ctrl nt ptch) \<and> fst (frequencyRegisters ctrl nt ptch) \<le> 1024
   \<and> 0 \<le> snd (frequencyRegisters ctrl nt ptch) \<and> snd (frequencyRegisters ctrl nt ptch) \<le> 7"
proof -
  define blk1 where "blk1 = (if 7 < truncDiv nt 12 then 7 else truncDiv nt 12)"
  define fnm0 where "fnm0 = shiftRight (freqInt ctrl nt ptch) (blk1 - 1)"
  show ?thesis
  proof (cases "fnm0 < 0")
    case True
    then show ?thesis
      unfolding frequencyRegisters_def Let_def blk1_def [symmetric] fnm0_def [symmetric]
      by simp
  next
    case False
    then have "0 \<le> fnm0" by simp
    from renormalize_bounds [OF this, of blk1] False show ?thesis
      unfolding frequencyRegisters_def Let_def blk1_def [symmetric] fnm0_def [symmetric]
      by (simp add: split_beta)
  qed
qed

text \<open>
  What the integer part of \<open>writeFrequency\<close> guarantees for every note and pitch,
  whatever the floating-point product \<open>freqInt\<close> is: the writes are FNUM, then BLOCK,
  then KON, the BLOCK value lies in 0..7 and the FNUM value in 0..1024. The loop halves
  only while \<open>1024 < fnum\<close>; whether the product ever leaves exactly 1024 is a matter
  of the floating-point constants, which this development leaves open.
\<close>

lemma writeFrequency_writes_bounded:
  "\<exists>f b. registers (writeFrequency ctrl slotID nt ptch keyon) =
           registers ctrl @ [WriteChannel slotID FNUM f, WriteChannel slotID BLOCK b,
                             WriteChannel slotID KON (if keyon then 1 else 0)]
         \<and> 0 \<le> f \<and> f \<le> 1024 \<and> 0 \<le> b \<and> b \<le> 7"
  using frequencyRegisters_bounds [of ctrl nt ptch]
  by (cases "frequencyRegisters ctrl nt ptch")
     (simp add: writeFrequency_def writeFrequencyWrites_def emit_def)

section \<open>Properties of the control changes\<close>

lemmas cc_defs = ccBankMSB_def ccModulation_def ccDataEntryHi_def ccVolume_def ccPan_def
  ccExpression_def ccBankLSB_def ccDataEntryLo_def ccSustainPedal_def ccNRPNLo_def
  ccNRPNHi_def ccRPNLo_def ccRPNHi_def ccSoundsOff_def ccNotesOff_def

lemma uint_small:
  assumes "0 \<le> x" and "x < 65536"
  shows "uint (word_of_int x :: 16 word) = x"
  using assms by (simp add: uint_word_of_int take_bit_eq_mod)

lemma uint_hi:
  assumes "0 \<le> m" and "m \<le> 127"
  shows "uint (word_of_int m * 100 + (ps :: 16 word) mod 100) = m * 100 + uint ps mod 100"
proof -
  have r: "uint (ps mod 100) = uint ps mod 100" by (simp add: uint_mod)
  have b: "0 \<le> uint ps mod 100" "uint ps mod 100 < 100" by simp_all
  have "word_of_int m * 100 + ps mod 100 = (word_of_int (m * 100 + uint ps mod 100) :: 16 word)"
    using r by (metis of_int_add of_int_mult of_int_numeral word_of_int_uint)
  moreover have "uint (word_of_int (m * 100 + uint ps mod 100) :: 16 word)
      = m * 100 + uint ps mod 100"
    using assms b by (intro uint_small) auto
  ultimately show ?thesis by simp
qed

lemma uint_lo:
  assumes "0 \<le> m" and "m \<le> 127" and "0 \<le> l" and "l \<le> 127"
    and "uint (ps1 :: 16 word) = m * 100 + r" and "0 \<le> r" and "r < 100"
  shows "uint (word_of_int l + ps1 div 100 * 100) = m * 100 + l"
proof -
  have d: "uint (ps1 div 100) = m" using assms by (simp add: uint_div)
  then have e: "ps1 div 100 = word_of_int m" by (metis word_of_int_uint)
  have "word_of_int l + ps1 div 100 * 100 = (word_of_int (l + m * 100) :: 16 word)"
    unfolding e by simp
  moreover have "uint (word_of_int (l + m * 100) :: 16 word) = l + m * 100"
    using assms by (intro uint_small) auto
  ultimately show ?thesis by simp
qed

lemma midiState_setMidiState:
  "midiState c ch = Some st \<Longrightarrow> midiState (setMidiState c ch st') ch = Some st'"
  by (auto simp: midiState_def setMidiState_def split: if_splits)

lemma ControlChange_DataEntryHi:
  "midiState c ch = Some st \<Longrightarrow>
   ControlChange c ch ccDataEntryHi v =
     Some (if rpn st = 0
           then setMidiState c ch (st\<lparr>pitchSens := word_of_int v * 100 + pitchSens st mod 100\<rparr>)
           else c)"
  by (simp add: ControlChange_def cc_defs)

lemma ControlChange_DataEntryLo:
  "midiState c ch = Some st \<Longrightarrow>
   ControlChange c ch ccDataEntryLo v =
     Some (if rpn st = 0
           then setMidiState c ch (st\<lparr>pitchSens := word_of_int v + pitchSens st div 100 * 100\<rparr>)
           else c)"
  by (simp add: ControlChange_def cc_defs)

lemma ControlChange_NRPN:
  "midiState c ch = Some st \<Longrightarrow> cc = ccNRPNLo \<or> cc = ccNRPNHi \<Longrightarrow>
   ControlChange c ch cc v = Some (setMidiState c ch (st\<lparr>rpn := 0x3fff\<rparr>))"
  by (auto simp: ControlChange_def cc_defs)

text \<open>
  C4. On a MIDI channel of the controller, with data bytes \<open>m\<close> and \<open>l\<close> in 0..127:
  when the rpn register is 0, data-entry MSB \<open>m\<close> followed by data-entry LSB \<open>l\<close>
  leaves \<open>pitchSens = m * 100 + l\<close>; when the rpn register is not 0, both data entries
  leave the controller as it is; and an NRPN select (controller 98 or 99) sets the rpn
  register to 0x3fff without touching \<open>pitchSens\<close>, after which both data entries are
  ignored.
\<close>

theorem C4_rpn_data_entry:
  assumes st: "midiState c midich = Some st"
    and m: "0 \<le> m" "m \<le> 127" and l: "0 \<le> l" "l \<le> 127"
  shows "(rpn st = 0 \<longrightarrow>
           (\<exists>c1 c2 st2. ControlChange c midich ccDataEntryHi m = Some c1
              \<and> ControlChange c1 midich ccDataEntryLo l = Some c2
              \<and> midiState c2 midich = Some st2
              \<and> uint (pitchSens st2) = m * 100 + l))
       \<and> (rpn st \<noteq> 0 \<longrightarrow>
            ControlChange c midich ccDataEntryHi m = Some c
          \<and> ControlChange c midich ccDataEntryLo l = Some c)
       \<and> (\<forall>cc \<in> {ccNRPNLo, ccNRPNHi}.
            \<exists>c1 st1. ControlChange c midich cc v = Some c1
              \<and> midiState c1 midich = Some st1 \<and> rpn st1 = 0x3fff
              \<and> pitchSens st1 = pitchSens st
              \<and> ControlChange c1 midich ccDataEntryHi m = Some c1
              \<and> ControlChange c1 midich ccDataEntryLo l = Some c1)"
proof (intro conjI impI ballI)
  assume z: "rpn st = 0"
  define st1 where "st1 = st\<lparr>pitchSens := word_of_int m * 100 + pitchSens st mod 100\<rparr>"
  define c1 where "c1 = setMidiState c midich st1"
  define st2 where "st2 = st1\<lparr>pitchSens := word_of_int l + pitchSens st1 div 100 * 100\<rparr>"
  define c2 where "c2 = setMidiState c1 midich st2"
  have h1: "ControlChange c midich ccDataEntryHi m = Some c1"
    using ControlChange_DataEntryHi [OF st, of m] z by (simp add: c1_def st1_def)
  have s1: "midiState c1 midich = Some st1"
    unfolding c1_def by (rule midiState_setMidiState [OF st])
  have z1: "rpn st1 = 0" using z by (simp add: st1_def)
  have h2: "ControlChange c1 midich ccDataEntryLo l = Some c2"
    using ControlChange_DataEntryLo [OF s1, of l] z1 by (simp add: c2_def st2_def)
  have s2: "midiState c2 midich = Some st2"
    unfolding c2_def by (rule midiState_setMidiState [OF s1])
  have u1: "uint (pitchSens st1) = m * 100 + uint (pitchSens st) mod 100"
    using uint_hi [OF m] by (simp add: st1_def)
  have "uint (pitchSens st2) = m * 100 + l"
    using uint_lo [OF m l u1] by (simp add: st2_def)
  with h1 h2 s2
  show "\<exists>c1 c2 st2. ControlChange c midich ccDataEntryHi m = Some c1
              \<and> ControlChange c1 midich ccDataEntryLo l = Some c2
              \<and> midiState c2 midich = Some st2
              \<and> uint (pitchSens st2) = m * 100 + l"
    by blast
next
  assume nz: "rpn st \<noteq> 0"
  show "ControlChange c midich ccDataEntryHi m = Some c"
    using ControlChange_DataEntryHi [OF st, of m] nz by simp
  show "ControlChange c midich ccDataEntryLo l = Some c"
    using ControlChange_DataEntryLo [OF st, of l] nz by simp
next
  fix cc assume cc: "cc \<in> {ccNRPNLo, ccNRPNHi}"
  define st1 where "st1 = st\<lparr>rpn := 0x3fff\<rparr>"
  define c1 where "c1 = setMidiState c midich st1"
  have h: "ControlChange c midich cc v = Some c1"
    using ControlChange_NRPN [OF st, of cc v] cc by (auto simp: c1_def st1_def)
  have s1: "midiState c1 midich = Some st1"
    unfolding c1_def by (rule midiState_setMidiState [OF st])
  have r: "rpn st1 = 0x3fff" "rpn st1 \<noteq> 0" "pitchSens st1 = pitchSens st"
    by (simp_all add: st1_def)
  have "ControlChange c1 midich ccDataEntryHi m = Some c1"
    using ControlChange_DataEntryHi [OF s1, of m] r by simp
  moreover have "ControlChange c1 midich ccDataEntryLo l = Some c1"
    using ControlChange_DataEntryLo [OF s1, of l] r by simp
  ultimately
  show "\<exists>c1 st1. ControlChange c midich cc v = Some c1
              \<and> midiState c1 midich = Some st1 \<and> rpn st1 = 0x3fff
              \<and> pitchSens st1 = pitchSens st
              \<and> ControlChange c1 midich ccDataEntryHi m = Some c1
              \<and> ControlChange c1 midich ccDataEntryLo l = Some c1"
    using h s1 r by blast
qed

theorem C4_rpn_data_entry_witness:
  "midiState exampleController 0 = Some zeroMidiChannelState
   \<and> (0::int) \<le> 12 \<and> (12::int) \<le> 127 \<and> (0::int) \<le> 34 \<and> (34::int) \<le> 127
   \<and> rpn zeroMidiChannelState = 0
   \<and> (\<exists>c1 c2 st2. ControlChange exampleController 0 ccDataEntryHi 12 = Some c1
        \<and> ControlChange c1 0 ccDataEntryLo 34 = Some c2
        \<and> midiState c2 0 = Some st2 \<and> uint (pitchSens st2) = 1234)
   \<and> (\<exists>c1 st1. ControlChange exampleController 0 ccNRPNLo 5 = Some c1
        \<and> midiState c1 0 = Some st1 \<and> rpn st1 = 0x3fff
        \<and> ControlChange c1 0 ccDataEntryHi 12 = Some c1
        \<and> ControlChange c1 0 ccDataEntryLo 34 = Some c1)"
proof -
  have st: "midiState exampleController 0 = Some zeroMidiChannelState"
    by (simp add: midiState_def exampleController_def NewController_def)
  have z: "rpn zeroMidiChannelState = 0"
    by (simp add: zeroMidiChannelState_def)
  have b: "(0::int) \<le> 12" "(12::int) \<le> 127" "(0::int) \<le> 34" "(34::int) \<le> 127"
    by simp_all
  note t = C4_rpn_data_entry [OF st b, of 5]
  from t z have a1: "\<exists>c1 c2 st2. ControlChange exampleController 0 ccDataEntryHi 12 = Some c1
        \<and> ControlChange c1 0 ccDataEntryLo 34 = Some c2
        \<and> midiState c2 0 = Some st2 \<and> uint (pitchSens st2) = 1234"
    by simp
  from t have a2: "\<exists>c1 st1. ControlChange exampleController 0 ccNRPNLo 5 = Some c1
        \<and> midiState c1 0 = Some st1 \<and> rpn st1 = 0x3fff
        \<and> ControlChange c1 0 ccDataEntryHi 12 = Some c1
        \<and> ControlChange c1 0 ccDataEntryLo 34 = Some c1"
    by blast
  from st z a1 a2 show ?thesis by simp
qed

section \<open>Properties of the instrument lookup\<close>

lemma midiState_SomeD:
  "midiState c ch = Some st \<Longrightarrow>
     0 \<le> ch \<and> ch < int (length (midiChannelStates c)) \<and> midiChannelStates c ! nat ch = st"
  by (auto simp: midiState_def split: if_splits)

lemma getInstrument_settled:
  assumes "midiState c midich = Some s" and "\<not> (bankMSB s = 125 \<and> pc s \<noteq> 1)"
  shows "getInstrument c midich nt =
           (case searchLibraries s nt (libraries c) of
              Some p \<Rightarrow> Some ((p, True), c)
            | None \<Rightarrow> map_option (\<lambda>p. ((p, False), c)) (firstProgram (libraries c)))"
  using midiState_SomeD [OF assms(1)] assms(2)
  by (subst getInstrument.simps) (auto split: option.splits)

lemma getInstrument_fallback:
  assumes "midiState c midich = Some s" and "searchLibraries s nt (libraries c) = None"
    and "bankMSB s = 125" and "pc s \<noteq> 1"
  shows "getInstrument c midich nt = getInstrument (setMidiState c midich (s\<lparr>pc := 1\<rparr>)) midich nt"
  using midiState_SomeD [OF assms(1)] assms(2-4)
  by (subst getInstrument.simps) simp

text \<open>
  C9. When the lookup finds no program for the stored (bankMSB, bankLSB, program), the
  bank MSB is 125 and the program is not 1, \<open>getInstrument\<close> stores program 1 in the
  MIDI channel state and retries. The controller after the call differs from the one
  before: whatever the retry returns, it returns it with the program overwritten, and
  every later lookup on that MIDI channel searches with program 1.
\<close>

theorem C9_getInstrument_overwrites_program:
  assumes st: "midiState c midich = Some s"
    and nf: "searchLibraries s nt (libraries c) = None"
    and b: "bankMSB s = 125" and p: "pc s \<noteq> 1"
  shows "\<exists>c1. c1 = setMidiState c midich (s\<lparr>pc := 1\<rparr>)
     \<and> midiState c1 midich = Some (s\<lparr>pc := 1\<rparr>)
     \<and> c1 \<noteq> c
     \<and> getInstrument c midich nt =
          (case searchLibraries (s\<lparr>pc := 1\<rparr>) nt (libraries c) of
             Some q \<Rightarrow> Some ((q, True), c1)
           | None \<Rightarrow> map_option (\<lambda>q. ((q, False), c1)) (firstProgram (libraries c)))
     \<and> (\<forall>r c'. getInstrument c midich nt = Some (r, c') \<longrightarrow>
            c' = c1 \<and> map_option pc (midiState c' midich) = Some 1)
     \<and> (\<forall>nt'. getInstrument c1 midich nt' =
          (case searchLibraries (s\<lparr>pc := 1\<rparr>) nt' (libraries c) of
             Some q \<Rightarrow> Some ((q, True), c1)
           | None \<Rightarrow> map_option (\<lambda>q. ((q, False), c1)) (firstProgram (libraries c))))"
proof -
  define c1 where "c1 = setMidiState c midich (s\<lparr>pc := 1\<rparr>)"
  have s1: "midiState c1 midich = Some (s\<lparr>pc := 1\<rparr>)"
    unfolding c1_def by (rule midiState_setMidiState [OF st])
  have ne: "c1 \<noteq> c"
  proof
    assume "c1 = c"
    with s1 st have "s\<lparr>pc := 1\<rparr> = s" by simp
    then have "pc (s\<lparr>pc := 1\<rparr>) = pc s" by simp
    with p show False by simp
  qed
  have libs: "libraries c1 = libraries c" by (simp add: c1_def setMidiState_def)
  have settled: "\<not> (bankMSB (s\<lparr>pc := 1\<rparr>) = 125 \<and> pc (s\<lparr>pc := 1\<rparr>) \<noteq> 1)" by simp
  have later: "getInstrument c1 midich nt' =
          (case searchLibraries (s\<lparr>pc := 1\<rparr>) nt' (libraries c) of
             Some q \<Rightarrow> Some ((q, True), c1)
           | None \<Rightarrow> map_option (\<lambda>q. ((q, False), c1)) (firstProgram (libraries c)))" for nt'
    using getInstrument_settled [OF s1 settled, of nt'] unfolding libs .
  have now: "getInstrument c midich nt = getInstrument c1 midich nt"
    unfolding c1_def by (rule getInstrument_fallback [OF st nf b p])
  have ret: "c' = c1 \<and> map_option pc (midiState c' midich) = Some 1"
    if "getInstrument c midich nt = Some (r, c')" for r c'
    using that s1 unfolding now later by (auto split: option.splits)
  show ?thesis
    using s1 ne later now ret unfolding c1_def [symmetric] by (intro exI [of _ c1]) auto
qed

theorem C9_getInstrument_overwrites_program_witness:
  "midiState exampleController125 0 = Some exampleState125
   \<and> searchLibraries exampleState125 60 (libraries exampleController125) = None
   \<and> bankMSB exampleState125 = 125 \<and> pc exampleState125 \<noteq> 1
   \<and> getInstrument exampleController125 0 60 =
       Some ((exampleProgram, True),
             setMidiState exampleController125 0 (exampleState125\<lparr>pc := 1\<rparr>))
   \<and> setMidiState exampleController125 0 (exampleState125\<lparr>pc := 1\<rparr>) \<noteq> exampleController125"
proof -
  have st: "midiState exampleController125 0 = Some exampleState125"
    by (simp add: midiState_def exampleController125_def NewController_def setMidiState_def)
  have libs: "libraries exampleController125 = [exampleLibrary]"
    by (simp add: exampleController125_def NewController_def setMidiState_def)
  have b: "bankMSB exampleState125 = 125" and p: "pc exampleState125 \<noteq> 1"
    by (simp_all add: exampleState125_def zeroMidiChannelState_def)
  have u: "unat (pc exampleState125) = 5" "unat (bankMSB exampleState125) = 125"
      "unat (bankLSB exampleState125) = 0"
    by (simp_all add: exampleState125_def zeroMidiChannelState_def)
  have nf: "searchLibraries exampleState125 60 (libraries exampleController125) = None"
    unfolding libs by (simp add: exampleLibrary_def exampleProgram_def u)
  have f: "searchLibraries (exampleState125\<lparr>pc := 1\<rparr>) 60 (libraries exampleController125)
             = Some exampleProgram"
    unfolding libs by (simp add: exampleLibrary_def u) (simp add: exampleProgram_def)
  from C9_getInstrument_overwrites_program [OF st nf b p]
  obtain c1 where c1: "c1 = setMidiState exampleController125 0 (exampleState125\<lparr>pc := 1\<rparr>)"
    and ne: "c1 \<noteq> exampleController125"
    and g: "getInstrument exampleController125 0 60 =
          (case searchLibraries (exampleState125\<lparr>pc := 1\<rparr>) 60 (libraries exampleController125) of
             Some q \<Rightarrow> Some ((q, True), c1)
           | None \<Rightarrow> map_option (\<lambda>q. ((q, False), c1)) (firstProgram (libraries exampleController125)))"
    by blast
  from g have g': "getInstrument exampleController125 0 60 = Some ((exampleProgram, True), c1)"
    unfolding f by simp
  from st nf b p g' ne show ?thesis unfolding c1 by blast
qed

section \<open>Properties of the slot allocation\<close>

lemma releaseSlot_Some:
  assumes "i < length (slots c)"
  shows "releaseSlot c (int i) killed =
     Some (c\<lparr>registers := registers c
                @ writeFrequencyWrites c (int i) (realnote (slots c ! i)) (slot.pitch (slots c ! i)) False
                @ (if killed then killWrites (int i) else []),
              slots := (slots c)[i := (slots c ! i)\<lparr>midiChannel := - 1, time := nows c (tick c),
                                                    flags := flagFree\<rparr>],
              tick := tick c + 1\<rparr>)"
  using assms
  by (simp add: releaseSlot_def getSlot_def writeFrequency_def emit_def time_Now_def setSlot_def)




lemma firstFree_None:
  "firstFree sls k = None \<longleftrightarrow> (\<forall>i<length sls. flags (sls ! i) AND flagFree = 0)"
proof (induction sls arbitrary: k)
  case Nil
  then show ?case by simp
next
  case (Cons a sls)
  then show ?case by (auto simp: nth_Cons split: nat.splits)
qed





lemma fold_oldestStep:
  assumes "n \<le> length sls"
  shows "case fold (oldestStep sls) [0..<n] (- 1, now) of (oldest, t) \<Rightarrow>
           (oldest = - 1 \<and> t = now \<and> (\<forall>j<n. \<not> time (sls ! j) < now))
         \<or> (0 \<le> oldest \<and> nat oldest < n \<and> t = time (sls ! nat oldest) \<and> t < now
            \<and> (\<forall>j<n. t \<le> time (sls ! j)) \<and> (\<forall>j<nat oldest. t < time (sls ! j)))"
  using assms
proof (induction n)
  case 0
  then show ?case by simp
next
  case (Suc n)
  obtain old t where ot: "fold (oldestStep sls) [0..<n] (- 1, now) = (old, t)"
    by (cases "fold (oldestStep sls) [0..<n] (- 1, now)") auto
  from Suc have IH:
    "(old = - 1 \<and> t = now \<and> (\<forall>j<n. \<not> time (sls ! j) < now))
     \<or> (0 \<le> old \<and> nat old < n \<and> t = time (sls ! nat old) \<and> t < now
        \<and> (\<forall>j<n. t \<le> time (sls ! j)) \<and> (\<forall>j<nat old. t < time (sls ! j)))"
    by (simp add: ot)
  have step: "fold (oldestStep sls) [0..<Suc n] (- 1, now) = oldestStep sls n (old, t)"
    by (simp add: ot)
  show ?case
  proof (cases "time (sls ! n) < t")
    case True
    have le: "t \<le> now" using IH by auto
    have a: "\<forall>j<n. time (sls ! n) < time (sls ! j)"
    proof (intro allI impI)
      fix j assume "j < n"
      with IH have "t \<le> time (sls ! j)" by (auto simp: not_less)
      with True show "time (sls ! n) < time (sls ! j)" by simp
    qed
    then have b: "\<forall>j<Suc n. time (sls ! n) \<le> time (sls ! j)"
      by (auto simp: less_Suc_eq)
    from True le a b show ?thesis
      unfolding step by (simp add: oldestStep_def)
  next
    case False
    from IH show ?thesis
    proof
      assume f: "old = - 1 \<and> t = now \<and> (\<forall>j<n. \<not> time (sls ! j) < now)"
      with False have "\<forall>j<Suc n. \<not> time (sls ! j) < now"
        by (auto simp: less_Suc_eq)
      with f False show ?thesis unfolding step by (simp add: oldestStep_def)
    next
      assume g: "0 \<le> old \<and> nat old < n \<and> t = time (sls ! nat old) \<and> t < now
        \<and> (\<forall>j<n. t \<le> time (sls ! j)) \<and> (\<forall>j<nat old. t < time (sls ! j))"
      with False have "\<forall>j<Suc n. t \<le> time (sls ! j)"
        by (auto simp: less_Suc_eq)
      with g False show ?thesis unfolding step by (auto simp: oldestStep_def)
    qed
  qed
qed

lemma findOldest_cases:
  "(fst (findOldest sls now) = - 1 \<and> (\<forall>j<length sls. \<not> time (sls ! j) < now))
   \<or> (\<exists>k<length sls. fst (findOldest sls now) = int k \<and> time (sls ! k) < now
        \<and> (\<forall>j<length sls. time (sls ! k) \<le> time (sls ! j))
        \<and> (\<forall>j<k. time (sls ! k) < time (sls ! j)))"
proof -
  obtain old t where ot: "findOldest sls now = (old, t)"
    by (cases "findOldest sls now") auto
  from fold_oldestStep [of "length sls" sls now] ot
  have "(old = - 1 \<and> t = now \<and> (\<forall>j<length sls. \<not> time (sls ! j) < now))
         \<or> (0 \<le> old \<and> nat old < length sls \<and> t = time (sls ! nat old) \<and> t < now
            \<and> (\<forall>j<length sls. t \<le> time (sls ! j)) \<and> (\<forall>j<nat old. t < time (sls ! j)))"
    by (simp add: findOldest_def)
  then show ?thesis
  proof
    assume "old = - 1 \<and> t = now \<and> (\<forall>j<length sls. \<not> time (sls ! j) < now)"
    then show ?thesis by (simp add: ot)
  next
    assume g: "0 \<le> old \<and> nat old < length sls \<and> t = time (sls ! nat old) \<and> t < now
            \<and> (\<forall>j<length sls. t \<le> time (sls ! j)) \<and> (\<forall>j<nat old. t < time (sls ! j))"
    then have "fst (findOldest sls now) = int (nat old)" by (simp add: ot)
    with g show ?thesis by blast
  qed
qed

lemma writeFrequencyWrites_env:
  "freqInt c' = freqInt c \<Longrightarrow>
   writeFrequencyWrites c' slotID nt ptch k = writeFrequencyWrites c slotID nt ptch k"
  by (simp add: writeFrequencyWrites_def frequencyRegisters_def)

lemma findFreeSlot_free:
  "firstFree (slots c) 0 = Some i \<Longrightarrow> findFreeSlot c ch nt = Some (int i, c)"
  by (simp add: findFreeSlot_def)

lemma findFreeSlot_none:
  assumes "firstFree (slots c) 0 = None"
    and "fst (findOldest (slots c) (nows c (tick c))) = - 1"
  shows "findFreeSlot c ch nt = Some (- 1, c\<lparr>tick := tick c + 1\<rparr>)"
  using assms by (simp add: findFreeSlot_def time_Now_def)

lemma findFreeSlot_steal:
  assumes "firstFree (slots c) 0 = None"
    and "fst (findOldest (slots c) (nows c (tick c))) = int k" and "k < length (slots c)"
  shows "findFreeSlot c ch nt =
     Some (int k,
       c\<lparr>registers := registers c
            @ writeFrequencyWrites c (int k) (realnote (slots c ! k)) (slot.pitch (slots c ! k)) False
            @ killWrites (int k),
          slots := (slots c)[k := (slots c ! k)\<lparr>midiChannel := - 1,
                       time := nows c (tick c + 1), flags := flagFree\<rparr>],
          tick := tick c + 2\<rparr>)"
proof -
  define c1 where "c1 = c\<lparr>tick := tick c + 1\<rparr>"
  have k1: "k < length (slots c1)" using assms(3) by (simp add: c1_def)
  have w: "writeFrequencyWrites c1 (int k) a b False = writeFrequencyWrites c (int k) a b False"
    for a b by (rule writeFrequencyWrites_env) (simp add: c1_def)
  have "findFreeSlot c ch nt = map_option (\<lambda>c2. (int k, c2)) (releaseSlot c1 (int k) True)"
    using assms by (simp add: findFreeSlot_def time_Now_def c1_def Let_def)
  also have "\<dots> = Some (int k,
       c\<lparr>registers := registers c
            @ writeFrequencyWrites c (int k) (realnote (slots c ! k)) (slot.pitch (slots c ! k)) False
            @ killWrites (int k),
          slots := (slots c)[k := (slots c ! k)\<lparr>midiChannel := - 1,
                       time := nows c (tick c + 1), flags := flagFree\<rparr>],
          tick := tick c + 2\<rparr>)"
    unfolding releaseSlot_Some [OF k1] w by (simp add: c1_def)
  finally show ?thesis .
qed

lemma getInstrument_state:
  assumes "getInstrument c ch nt = Some (r, c1)"
  shows "c1 = c \<or> (\<exists>s. midiState c ch = Some s \<and> c1 = setMidiState c ch (s\<lparr>pc := 1\<rparr>))"
proof -
  from assms have rng: "0 \<le> ch \<and> ch < int (length (midiChannelStates c))"
    by (subst (asm) getInstrument.simps) (simp split: if_splits)
  define s where "s = midiChannelStates c ! nat ch"
  have st: "midiState c ch = Some s" using rng by (simp add: midiState_def s_def)
  show ?thesis
  proof (cases "bankMSB s = 125 \<and> pc s \<noteq> 1")
    case False
    from getInstrument_settled [OF st False, of nt] assms show ?thesis
      by (cases "firstProgram (libraries c)") (auto split: option.splits)
  next
    case True
    show ?thesis
    proof (cases "searchLibraries s nt (libraries c)")
      case (Some p)
      with assms rng have "c1 = c"
        by (subst (asm) getInstrument.simps) (simp add: s_def)
      then show ?thesis ..
    next
      case None
      define c' where "c' = setMidiState c ch (s\<lparr>pc := 1\<rparr>)"
      have s1: "midiState c' ch = Some (s\<lparr>pc := 1\<rparr>)"
        unfolding c'_def by (rule midiState_setMidiState [OF st])
      have "getInstrument c ch nt = getInstrument c' ch nt"
        unfolding c'_def using True by (intro getInstrument_fallback [OF st None]) auto
      with getInstrument_settled [OF s1, of nt] assms have "c1 = c'"
        by (cases "firstProgram (libraries c')") (auto split: option.splits)
      with st show ?thesis unfolding c'_def by blast
    qed
  qed
qed

lemma getInstrument_frame:
  assumes "getInstrument c ch nt = Some (r, c1)"
  shows "slots c1 = slots c \<and> registers c1 = registers c \<and> nows c1 = nows c
       \<and> tick c1 = tick c \<and> freqInt c1 = freqInt c \<and> libraries c1 = libraries c"
  using getInstrument_state [OF assms] by (auto simp: setMidiState_def)

lemma NoteOn_allocate:
  assumes "vel \<noteq> 0" and "getInstrument c ch nt = Some ((instr, True), c1)"
    and "VoiceType instr = VoiceType_FM"
  shows "NoteOn c ch nt vel =
     (case findFreeSlot c1 ch nt of None \<Rightarrow> None
      | Some (slotID, c2) \<Rightarrow>
          if 0 \<le> slotID then occupySlot c2 slotID ch nt vel instr else Some c2)"
  using assms by (simp add: NoteOn_def)


lemma fresh_firstFree: "firstFree (replicate n zeroSlot) 0 = None"
  by (simp add: firstFree_None zeroSlot_def)

lemma fresh_oldest:
  assumes "0 < n" and "0 < now"
  shows "fst (findOldest (replicate n zeroSlot) now) = 0"
proof -
  let ?sls = "replicate n zeroSlot"
  have t: "time (?sls ! j) = 0" if "j < n" for j using that by (simp add: zeroSlot_def)
  from findOldest_cases [of ?sls now]
  show ?thesis
  proof
    assume "fst (findOldest ?sls now) = - 1 \<and> (\<forall>j<length ?sls. \<not> time (?sls ! j) < now)"
    then have "\<forall>j<n. \<not> time (?sls ! j) < now" by auto
    with assms(1) have "\<not> time (?sls ! 0) < now" by blast
    with t [OF assms(1)] assms(2) show ?thesis by simp
  next
    assume "\<exists>k<length ?sls. fst (findOldest ?sls now) = int k \<and> time (?sls ! k) < now
        \<and> (\<forall>j<length ?sls. time (?sls ! k) \<le> time (?sls ! j))
        \<and> (\<forall>j<k. time (?sls ! k) < time (?sls ! j))"
    then obtain k where k: "k < n" "fst (findOldest ?sls now) = int k"
      "\<forall>j<k. time (?sls ! k) < time (?sls ! j)" by auto
    have "k = 0"
    proof (rule ccontr)
      assume "k \<noteq> 0"
      then have "0 < k" by simp
      with k(3) have "time (?sls ! k) < time (?sls ! 0)" by blast
      with t [of 0] assms(1) show False by simp
    qed
    with k show ?thesis by simp
  qed
qed




lemma getInstrument_zero_state:
  assumes "midiState c ch = Some zeroMidiChannelState"
    and "searchLibraries zeroMidiChannelState nt (libraries c) = Some instr"
  shows "getInstrument c ch nt = Some ((instr, True), c)"
proof -
  have "\<not> (bankMSB zeroMidiChannelState = 125 \<and> pc zeroMidiChannelState \<noteq> 1)"
    by (simp add: zeroMidiChannelState_def)
  from getInstrument_settled [OF assms(1) this, of nt] assms(2) show ?thesis by simp
qed

lemma example_search:
  "searchLibraries zeroMidiChannelState 60 [exampleLibrary0] = Some exampleProgram0"
  by (simp add: exampleLibrary0_def zeroMidiChannelState_def)
     (simp add: exampleProgram0_def exampleProgram_def)

lemma example_FM: "VoiceType exampleProgram0 = VoiceType_FM"
  by (simp add: exampleProgram0_def exampleProgram_def)


section \<open>Properties of occupying a slot\<close>

lemma operatorsWritesFrom_noKON: "\<forall>w\<in>set (operatorsWritesFrom slotID i ops). \<not> isKON w"
  by (induction ops arbitrary: i) (auto simp: operatorWrites_def)

lemma ymfWriteInstrumentWrites_noKON:
  "ymfWriteInstrumentWrites slotID instr = Some ws \<Longrightarrow> \<forall>w\<in>set ws. \<not> isKON w"
  using operatorsWritesFrom_noKON [of slotID 0]
  by (auto simp: ymfWriteInstrumentWrites_def ymfWriteSlotAllOps_def split: option.splits)

lemma writeModulationWrites_noKON:
  "writeModulationWrites slotID instr state = Some ws \<Longrightarrow> \<forall>w\<in>set ws. \<not> isKON w"
  by (auto simp: writeModulationWrites_def ymfWriteSlotEachOps_def Let_def
           split: option.splits if_splits)

lemma ymfWriteVelocityFrom_noKON:
  "ymfWriteVelocityFrom slotID vel i ops = Some ws \<Longrightarrow> \<forall>w\<in>set ws. \<not> isKON w"
proof (induction ops arbitrary: i ws)
  case Nil
  then show ?case by simp
next
  case (Cons a ops)
  then show ?case by (auto simp: Let_def split: option.splits)
qed

lemma ymfWriteVelocityWrites_noKON:
  "ymfWriteVelocityWrites slotID vel instr = Some ws \<Longrightarrow> \<forall>w\<in>set ws. \<not> isKON w"
  by (auto simp: ymfWriteVelocityWrites_def split: option.splits dest: ymfWriteVelocityFrom_noKON)

lemma occupySlot_registers:
  assumes "occupySlot c slotID midich nt vel instr = Some c'"
  shows "\<exists>st wsI wsM wsV f b.
       midiState c midich = Some st
     \<and> ymfWriteInstrumentWrites slotID instr = Some wsI
     \<and> writeModulationWrites slotID (Some instr) (word_of_int modThresh \<le> modulation st) = Some wsM
     \<and> ymfWriteVelocityWrites slotID vel instr = Some wsV
     \<and> registers c' = registers c @ wsI @ wsM
          @ [WriteChannel slotID CHPAN (uint (pan st)),
             WriteChannel slotID VOLUME (uint (volume st)),
             WriteChannel slotID EXPRESSION (uint (expression st))]
          @ wsV
          @ [WriteChannel slotID FNUM f, WriteChannel slotID BLOCK b,
             WriteChannel slotID KON 1]"
proof -
  from assms obtain st where st: "midiState c midich = Some st"
    by (auto simp: occupySlot_def split: option.splits)
  from assms st show ?thesis
    unfolding occupySlot_def Let_def
    by (auto simp: writeFrequency_def writeFrequencyWrites_def emit_def time_Now_def setSlot_def
          split_beta flagVibrato_def split: option.splits if_splits)
qed

lemma ymfWriteVelocityFrom_Some:
  assumes "0 \<le> vel" and "vel < 128"
  shows "\<exists>ws. ymfWriteVelocityFrom slotID vel i ops = Some ws"
proof (induction ops arbitrary: i)
  case Nil
  show ?case by simp
next
  case (Cons a ops)
  from assms obtain t where "ymfConvertVelocity (Tl a) vel = Some t"
    by (simp add: ymfConvertVelocity_def velocitytable_length)
  moreover from Cons [of "i + 1"] obtain ws where
    "ymfWriteVelocityFrom slotID vel (i + 1) ops = Some ws" by blast
  ultimately show ?case by simp
qed

lemma occupySlot_Some:
  assumes "midiState c midich = Some st" and "getSlot c slotID = Some sl"
    and "FmVoice instr = Some fmv" and "4 \<le> length (Operators fmv)"
    and "0 \<le> vel" and "vel < 128"
  shows "\<exists>c'. occupySlot c slotID midich nt vel instr = Some c'"
proof -
  from ymfWriteVelocityFrom_Some [OF assms(5,6), of slotID 0 "Operators fmv"] assms(3)
  obtain wsV where v: "ymfWriteVelocityWrites slotID vel instr = Some wsV"
    by (auto simp: ymfWriteVelocityWrites_def)
  from assms(3) obtain wsI where i: "ymfWriteInstrumentWrites slotID instr = Some wsI"
    by (simp add: ymfWriteInstrumentWrites_def)
  from assms(3,4) obtain wsM where
    m: "writeModulationWrites slotID (Some instr)
          ((if word_of_int modThresh \<le> modulation st then 0 OR flagVibrato else 0)
             AND flagVibrato \<noteq> 0) = Some wsM"
    by (auto simp: writeModulationWrites_def Let_def)
  from assms(3) obtain nt1 where
    n: "(if DrumNote instr \<noteq> 0 then map_option DrumKey (FmVoice instr) else Some nt) = Some nt1"
    by (cases "DrumNote instr = 0") auto
  show ?thesis
    unfolding occupySlot_def Let_def
    by (simp add: assms(1,2) n i m v split_beta)
qed

lemma findFreeSlot_registers:
  assumes "findFreeSlot c ch nt = Some (slotID, c2)"
  shows "registers c2 = registers c
       \<or> (\<exists>f0 b0. registers c2 = registers c
             @ [WriteChannel slotID FNUM f0, WriteChannel slotID BLOCK b0,
                WriteChannel slotID KON 0] @ killWrites slotID)"
proof (cases "firstFree (slots c) 0")
  case (Some i)
  from findFreeSlot_free [OF Some, of ch nt] assms show ?thesis by simp
next
  case None
  from findOldest_cases [of "slots c" "nows c (tick c)"]
  show ?thesis
  proof
    assume "fst (findOldest (slots c) (nows c (tick c))) = - 1
       \<and> (\<forall>j<length (slots c). \<not> time (slots c ! j) < nows c (tick c))"
    then have "fst (findOldest (slots c) (nows c (tick c))) = - 1" ..
    from findFreeSlot_none [OF None this, of ch nt] assms show ?thesis by auto
  next
    assume "\<exists>k<length (slots c). fst (findOldest (slots c) (nows c (tick c))) = int k
        \<and> time (slots c ! k) < nows c (tick c)
        \<and> (\<forall>j<length (slots c). time (slots c ! k) \<le> time (slots c ! j))
        \<and> (\<forall>j<k. time (slots c ! k) < time (slots c ! j))"
    then obtain k where k: "k < length (slots c)"
      "fst (findOldest (slots c) (nows c (tick c))) = int k" by blast
    from findFreeSlot_steal [OF None k(2) k(1), of ch nt] assms
    have "slotID = int k" and "registers c2 = registers c
            @ writeFrequencyWrites c (int k) (realnote (slots c ! k)) (slot.pitch (slots c ! k)) False
            @ killWrites (int k)"
      by auto
    then show ?thesis
      by (cases "frequencyRegisters c (realnote (slots c ! k)) (slot.pitch (slots c ! k))")
         (simp add: writeFrequencyWrites_def)
  qed
qed

lemma findFreeSlot_midiStates:
  assumes "findFreeSlot c ch nt = Some (slotID, c2)"
  shows "midiChannelStates c2 = midiChannelStates c"
proof (cases "firstFree (slots c) 0")
  case (Some i)
  from findFreeSlot_free [OF Some, of ch nt] assms show ?thesis by simp
next
  case None
  from findOldest_cases [of "slots c" "nows c (tick c)"]
  show ?thesis
  proof
    assume "fst (findOldest (slots c) (nows c (tick c))) = - 1
       \<and> (\<forall>j<length (slots c). \<not> time (slots c ! j) < nows c (tick c))"
    then have "fst (findOldest (slots c) (nows c (tick c))) = - 1" ..
    from findFreeSlot_none [OF None this, of ch nt] assms show ?thesis by auto
  next
    assume "\<exists>k<length (slots c). fst (findOldest (slots c) (nows c (tick c))) = int k
        \<and> time (slots c ! k) < nows c (tick c)
        \<and> (\<forall>j<length (slots c). time (slots c ! k) \<le> time (slots c ! j))
        \<and> (\<forall>j<k. time (slots c ! k) < time (slots c ! j))"
    then obtain k where k: "k < length (slots c)"
      "fst (findOldest (slots c) (nows c (tick c))) = int k" by blast
    from findFreeSlot_steal [OF None k(2) k(1), of ch nt] assms show ?thesis by auto
  qed
qed

text \<open>
  C7. Let a NoteOn with a velocity other than 0 find an FM instrument, obtain a slot and
  return. The writes it made are, in order: the release of the slot if it was stolen
  (none otherwise); the instrument's operator writes and ALG, LFO, PANPOT, BO; the four
  EVB writes; CHPAN, VOLUME, EXPRESSION; the velocity writes of the total levels; then
  FNUM, BLOCK and KON = 1. None of the writes for the new note before the last is a KON
  write, and the last write of the whole record is that KON write.
\<close>

theorem C7_key_on_is_last_write:
  assumes vel: "vel \<noteq> 0"
    and gi: "getInstrument c ch nt = Some ((instr, True), c1)"
    and fm: "VoiceType instr = VoiceType_FM"
    and ff: "findFreeSlot c1 ch nt = Some (slotID, c2)" and pos: "0 \<le> slotID"
    and res: "NoteOn c ch nt vel = Some c'"
  shows "\<exists>rel st wsI wsM wsV f b.
       (rel = [] \<or> (\<exists>f0 b0. rel = [WriteChannel slotID FNUM f0, WriteChannel slotID BLOCK b0,
                                   WriteChannel slotID KON 0] @ killWrites slotID))
     \<and> midiState c1 ch = Some st
     \<and> ymfWriteInstrumentWrites slotID instr = Some wsI
     \<and> writeModulationWrites slotID (Some instr) (word_of_int modThresh \<le> modulation st) = Some wsM
     \<and> ymfWriteVelocityWrites slotID vel instr = Some wsV
     \<and> registers c' = registers c @ rel
          @ (wsI @ wsM
             @ [WriteChannel slotID CHPAN (uint (pan st)),
                WriteChannel slotID VOLUME (uint (volume st)),
                WriteChannel slotID EXPRESSION (uint (expression st))]
             @ wsV)
          @ [WriteChannel slotID FNUM f, WriteChannel slotID BLOCK b,
             WriteChannel slotID KON 1]
     \<and> (\<forall>w \<in> set (wsI @ wsM
             @ [WriteChannel slotID CHPAN (uint (pan st)),
                WriteChannel slotID VOLUME (uint (volume st)),
                WriteChannel slotID EXPRESSION (uint (expression st))]
             @ wsV
             @ [WriteChannel slotID FNUM f, WriteChannel slotID BLOCK b]). \<not> isKON w)
     \<and> last (registers c') = WriteChannel slotID KON 1"
proof -
  have occ: "occupySlot c2 slotID ch nt vel instr = Some c'"
    using NoteOn_allocate [OF vel gi fm] ff pos res by simp
  from occupySlot_registers [OF occ]
  obtain st wsI wsM wsV f b where
    st2: "midiState c2 ch = Some st"
    and i: "ymfWriteInstrumentWrites slotID instr = Some wsI"
    and m: "writeModulationWrites slotID (Some instr) (word_of_int modThresh \<le> modulation st) = Some wsM"
    and v: "ymfWriteVelocityWrites slotID vel instr = Some wsV"
    and r: "registers c' = registers c2 @ wsI @ wsM
          @ [WriteChannel slotID CHPAN (uint (pan st)),
             WriteChannel slotID VOLUME (uint (volume st)),
             WriteChannel slotID EXPRESSION (uint (expression st))]
          @ wsV
          @ [WriteChannel slotID FNUM f, WriteChannel slotID BLOCK b,
             WriteChannel slotID KON 1]"
    by blast
  have "midiState c1 ch = midiState c2 ch"
    unfolding midiState_def findFreeSlot_midiStates [OF ff] ..
  with st2 have st1: "midiState c1 ch = Some st" by simp
  have rc: "registers c1 = registers c" using getInstrument_frame [OF gi] by simp
  from findFreeSlot_registers [OF ff] obtain rel where
    rel: "rel = [] \<or> (\<exists>f0 b0. rel = [WriteChannel slotID FNUM f0, WriteChannel slotID BLOCK b0,
                                   WriteChannel slotID KON 0] @ killWrites slotID)"
    and r2: "registers c2 = registers c @ rel"
    unfolding rc by auto
  have nk: "\<forall>w \<in> set (wsI @ wsM
             @ [WriteChannel slotID CHPAN (uint (pan st)),
                WriteChannel slotID VOLUME (uint (volume st)),
                WriteChannel slotID EXPRESSION (uint (expression st))]
             @ wsV
             @ [WriteChannel slotID FNUM f, WriteChannel slotID BLOCK b]). \<not> isKON w"
    using ymfWriteInstrumentWrites_noKON [OF i] writeModulationWrites_noKON [OF m]
      ymfWriteVelocityWrites_noKON [OF v]
    by auto
  have full: "registers c' = registers c @ rel
          @ (wsI @ wsM
             @ [WriteChannel slotID CHPAN (uint (pan st)),
                WriteChannel slotID VOLUME (uint (volume st)),
                WriteChannel slotID EXPRESSION (uint (expression st))]
             @ wsV)
          @ [WriteChannel slotID FNUM f, WriteChannel slotID BLOCK b,
             WriteChannel slotID KON 1]"
    unfolding r r2 by simp
  have lst: "last (registers c') = WriteChannel slotID KON 1"
    unfolding full by simp
  from rel st1 i m v full nk lst show ?thesis by blast
qed

lemma fresh_findFreeSlot:
  assumes "0 < n" and "0 < clock 0"
  shows "\<exists>c2. findFreeSlot (NewController n libs clock fi) ch nt = Some (0, c2)
     \<and> length (slots c2) = n
     \<and> midiChannelStates c2 = replicate 16 zeroMidiChannelState"
proof -
  let ?c = "NewController n libs clock fi"
  have sl: "slots ?c = replicate n zeroSlot" by (simp add: NewController_def)
  have ff: "firstFree (slots ?c) 0 = None" unfolding sl by (rule fresh_firstFree)
  have now: "nows ?c (tick ?c) = clock 0" by (simp add: NewController_def)
  have old: "fst (findOldest (slots ?c) (nows ?c (tick ?c))) = int 0"
    unfolding sl now using fresh_oldest [OF assms] by simp
  have len: "0 < length (slots ?c)" using assms(1) by (simp add: sl)
  have ms: "midiChannelStates ?c = replicate 16 zeroMidiChannelState"
    by (simp add: NewController_def)
  from findFreeSlot_steal [OF ff old len, of ch nt] show ?thesis
    by (simp add: sl ms)
qed

lemma exampleFresh_lookup:
  "getInstrument exampleFresh 0 60 = Some ((exampleProgram0, True), exampleFresh)"
proof -
  have st: "midiState exampleFresh 0 = Some zeroMidiChannelState"
    by (simp add: midiState_def exampleFresh_def NewController_def)
  have l: "libraries exampleFresh = [exampleLibrary0]"
    by (simp add: exampleFresh_def NewController_def)
  show ?thesis
    by (rule getInstrument_zero_state [OF st]) (simp only: l example_search)
qed

theorem C7_key_on_is_last_write_witness:
  "(100::int) \<noteq> 0
   \<and> getInstrument exampleFresh 0 60 = Some ((exampleProgram0, True), exampleFresh)
   \<and> VoiceType exampleProgram0 = VoiceType_FM
   \<and> (\<exists>c2 c'. findFreeSlot exampleFresh 0 60 = Some (0, c2) \<and> (0::int) \<le> 0
         \<and> NoteOn exampleFresh 0 60 100 = Some c'
         \<and> last (registers c') = WriteChannel 0 KON 1)"
proof -
  have v: "(100::int) \<noteq> 0" by simp
  have p: "(0::int) \<le> 0" by simp
  from fresh_findFreeSlot [of 2 "\<lambda>n. n + 1" "[exampleLibrary0]" "\<lambda>nt ptch. 0" 0 60]
  obtain c2 where ff: "findFreeSlot exampleFresh 0 60 = Some (0, c2)"
    and len: "length (slots c2) = 2"
    and ms: "midiChannelStates c2 = replicate 16 zeroMidiChannelState"
    by (auto simp: exampleFresh_def)
  have st: "midiState c2 0 = Some zeroMidiChannelState" by (simp add: midiState_def ms)
  have gs: "getSlot c2 0 = Some (slots c2 ! 0)" by (simp add: getSlot_def len)
  have fv: "FmVoice exampleProgram0 = Some \<lparr>DrumKey = 0, Operators = replicate 4 exampleFMOperator,
                      Alg = 1, Lfo = 0, Panpot = 15, Bo = 1\<rparr>"
    by (simp add: exampleProgram0_def exampleProgram_def)
  have "\<exists>c'. occupySlot c2 0 0 60 100 exampleProgram0 = Some c'"
    by (rule occupySlot_Some [OF st gs fv]) simp_all
  then obtain c' where occ: "occupySlot c2 0 0 60 100 exampleProgram0 = Some c'" ..
  have res: "NoteOn exampleFresh 0 60 100 = Some c'"
    using NoteOn_allocate [OF v exampleFresh_lookup example_FM] ff occ by simp
  from C7_key_on_is_last_write [OF v exampleFresh_lookup example_FM ff p res]
  have "last (registers c') = WriteChannel 0 KON 1" by blast
  with v exampleFresh_lookup example_FM ff res show ?thesis by blast
qed

section \<open>Properties of note-off and the sustain pedal\<close>

lemma writeFrequencyWrites_KON:
  "filter isKON (writeFrequencyWrites c slotID a b keyon)
     = [WriteChannel slotID KON (if keyon then 1 else 0)]"
  by (cases "frequencyRegisters c a b") (simp add: writeFrequencyWrites_def)

lemma forSlots_release:
  assumes "distinct is" and "\<forall>i\<in>set is. i < length (slots c)"
  shows "\<exists>c' ws.
       forSlots (\<lambda>i c. if P (slots c ! i) then releaseSlot c (int i) False else Some c) is c
         = Some c'
     \<and> length (slots c') = length (slots c)
     \<and> midiChannelStates c' = midiChannelStates c
     \<and> registers c' = registers c @ ws
     \<and> filter isKON ws
         = map (\<lambda>i. WriteChannel (int i) KON 0) (filter (\<lambda>i. P (slots c ! i)) is)
     \<and> (\<forall>j<length (slots c).
           (j \<in> set is \<and> P (slots c ! j) \<longrightarrow>
              midiChannel (slots c' ! j) = - 1 \<and> flags (slots c' ! j) = flagFree)
         \<and> (\<not> (j \<in> set is \<and> P (slots c ! j)) \<longrightarrow> slots c' ! j = slots c ! j))"
  using assms
proof (induction "is" arbitrary: c)
  case Nil
  show ?case by simp
next
  case (Cons i "is")
  let ?body = "\<lambda>i c. if P (slots c ! i) then releaseSlot c (int i) False else Some c"
  from Cons.prems have i: "i < length (slots c)" and ni: "i \<notin> set is"
    and d: "distinct is" and b: "\<forall>j\<in>set is. j < length (slots c)"
    by simp_all
  show ?case
  proof (cases "P (slots c ! i)")
    case True
    define wf where "wf = writeFrequencyWrites c (int i) (realnote (slots c ! i))
                            (slot.pitch (slots c ! i)) False"
    define c1 where "c1 = c\<lparr>registers := registers c @ wf @ [],
              slots := (slots c)[i := (slots c ! i)\<lparr>midiChannel := - 1, time := nows c (tick c),
                                                    flags := flagFree\<rparr>],
              tick := tick c + 1\<rparr>"
    have r: "releaseSlot c (int i) False = Some c1"
      using releaseSlot_Some [OF i, of False] by (simp add: c1_def wf_def)
    have len1: "length (slots c1) = length (slots c)" by (simp add: c1_def)
    have same: "slots c1 ! j = slots c ! j" if "j \<noteq> i" for j
      using that by (simp add: c1_def)
    have at_i: "midiChannel (slots c1 ! i) = - 1" "flags (slots c1 ! i) = flagFree"
      using i by (simp_all add: c1_def)
    have ms1: "midiChannelStates c1 = midiChannelStates c" by (simp add: c1_def)
    have rg1: "registers c1 = registers c @ wf" by (simp add: c1_def)
    from b have b1: "\<forall>j\<in>set is. j < length (slots c1)" by (simp add: len1)
    from Cons.IH [OF d b1] obtain c' ws where
      run: "forSlots ?body is c1 = Some c'"
      and len: "length (slots c') = length (slots c1)"
      and ms: "midiChannelStates c' = midiChannelStates c1"
      and rg: "registers c' = registers c1 @ ws"
      and kn: "filter isKON ws
         = map (\<lambda>i. WriteChannel (int i) KON 0) (filter (\<lambda>i. P (slots c1 ! i)) is)"
      and sl: "\<forall>j<length (slots c1).
           (j \<in> set is \<and> P (slots c1 ! j) \<longrightarrow>
              midiChannel (slots c' ! j) = - 1 \<and> flags (slots c' ! j) = flagFree)
         \<and> (\<not> (j \<in> set is \<and> P (slots c1 ! j)) \<longrightarrow> slots c' ! j = slots c1 ! j)"
      by blast
    have "slots c1 ! j = slots c ! j" if "j \<in> set is" for j
      using that ni by (intro same) auto
    then have filt: "filter (\<lambda>j. P (slots c1 ! j)) is = filter (\<lambda>j. P (slots c ! j)) is"
      by (intro filter_cong) simp_all
    have run': "forSlots ?body (i # is) c = Some c'"
      using True r run by simp
    have rg': "registers c' = registers c @ (wf @ ws)" by (simp add: rg rg1)
    have kn': "filter isKON (wf @ ws)
         = map (\<lambda>i. WriteChannel (int i) KON 0) (filter (\<lambda>i. P (slots c ! i)) (i # is))"
      using True by (simp add: kn filt wf_def writeFrequencyWrites_KON)
    have sl': "(j \<in> set (i # is) \<and> P (slots c ! j) \<longrightarrow>
              midiChannel (slots c' ! j) = - 1 \<and> flags (slots c' ! j) = flagFree)
         \<and> (\<not> (j \<in> set (i # is) \<and> P (slots c ! j)) \<longrightarrow> slots c' ! j = slots c ! j)"
      if j: "j < length (slots c)" for j
    proof (cases "j = i")
      case True
      with sl i ni len1 have "slots c' ! i = slots c1 ! i" by auto
      with True \<open>P (slots c ! i)\<close> at_i show ?thesis by simp
    next
      case False
      with sl j len1 same [OF False] show ?thesis by auto
    qed
    have len': "length (slots c') = length (slots c)" using len len1 by simp
    have ms': "midiChannelStates c' = midiChannelStates c" using ms ms1 by simp
    have sl'': "\<forall>j<length (slots c).
           (j \<in> set (i # is) \<and> P (slots c ! j) \<longrightarrow>
              midiChannel (slots c' ! j) = - 1 \<and> flags (slots c' ! j) = flagFree)
         \<and> (\<not> (j \<in> set (i # is) \<and> P (slots c ! j)) \<longrightarrow> slots c' ! j = slots c ! j)"
      by (intro allI impI) (rule sl')
    show ?thesis
      by (rule exI [of _ c'], rule exI [of _ "wf @ ws"]) (intro conjI run' len' ms' rg' kn' sl'')
  next
    case False
    from Cons.IH [OF d b] obtain c' ws where
      run: "forSlots ?body is c = Some c'"
      and len: "length (slots c') = length (slots c)"
      and ms: "midiChannelStates c' = midiChannelStates c"
      and rg: "registers c' = registers c @ ws"
      and kn: "filter isKON ws
         = map (\<lambda>i. WriteChannel (int i) KON 0) (filter (\<lambda>i. P (slots c ! i)) is)"
      and sl: "\<forall>j<length (slots c).
           (j \<in> set is \<and> P (slots c ! j) \<longrightarrow>
              midiChannel (slots c' ! j) = - 1 \<and> flags (slots c' ! j) = flagFree)
         \<and> (\<not> (j \<in> set is \<and> P (slots c ! j)) \<longrightarrow> slots c' ! j = slots c ! j)"
      by blast
    have run': "forSlots ?body (i # is) c = Some c'"
      using False run by simp
    have kn': "filter isKON ws
         = map (\<lambda>i. WriteChannel (int i) KON 0) (filter (\<lambda>i. P (slots c ! i)) (i # is))"
      using False by (simp add: kn)
    have sl': "(j \<in> set (i # is) \<and> P (slots c ! j) \<longrightarrow>
              midiChannel (slots c' ! j) = - 1 \<and> flags (slots c' ! j) = flagFree)
         \<and> (\<not> (j \<in> set (i # is) \<and> P (slots c ! j)) \<longrightarrow> slots c' ! j = slots c ! j)"
      if j: "j < length (slots c)" for j
      using sl j False by (cases "j = i") auto
    have sl'': "\<forall>j<length (slots c).
           (j \<in> set (i # is) \<and> P (slots c ! j) \<longrightarrow>
              midiChannel (slots c' ! j) = - 1 \<and> flags (slots c' ! j) = flagFree)
         \<and> (\<not> (j \<in> set (i # is) \<and> P (slots c ! j)) \<longrightarrow> slots c' ! j = slots c ! j)"
      by (intro allI impI) (rule sl')
    show ?thesis
      by (rule exI [of _ c'], rule exI [of _ ws]) (intro conjI run' len ms rg kn' sl'')
  qed
qed

lemma flagSustain_set: "(x OR flagSustain) AND flagSustain \<noteq> 0"
proof -
  have "(x OR flagSustain) AND flagSustain = flagSustain"
    by (rule bit_eqI) (auto simp: bit_and_iff bit_or_iff)
  then show ?thesis by (simp add: flagSustain_def)
qed

lemma forSlots_mark:
  assumes "distinct is" and "\<forall>i\<in>set is. i < length (slots c)"
  shows "\<exists>c'.
       forSlots (\<lambda>i c. if P (slots c ! i)
                        then Some (setSlot c i ((slots c ! i)\<lparr>flags := flags (slots c ! i) OR flagSustain\<rparr>))
                        else Some c) is c
         = Some c'
     \<and> c' = c\<lparr>slots := slots c'\<rparr>
     \<and> length (slots c') = length (slots c)
     \<and> (\<forall>j<length (slots c).
           (j \<in> set is \<and> P (slots c ! j) \<longrightarrow>
              slots c' ! j = (slots c ! j)\<lparr>flags := flags (slots c ! j) OR flagSustain\<rparr>)
         \<and> (\<not> (j \<in> set is \<and> P (slots c ! j)) \<longrightarrow> slots c' ! j = slots c ! j))"
  using assms
proof (induction "is" arbitrary: c)
  case Nil
  show ?case by simp
next
  case (Cons i "is")
  let ?body = "\<lambda>i c. if P (slots c ! i)
                        then Some (setSlot c i ((slots c ! i)\<lparr>flags := flags (slots c ! i) OR flagSustain\<rparr>))
                        else Some c"
  from Cons.prems have i: "i < length (slots c)" and ni: "i \<notin> set is"
    and d: "distinct is" and b: "\<forall>j\<in>set is. j < length (slots c)"
    by simp_all
  define c1 where "c1 = (if P (slots c ! i)
      then setSlot c i ((slots c ! i)\<lparr>flags := flags (slots c ! i) OR flagSustain\<rparr>) else c)"
  have step: "?body i c = Some c1" by (simp add: c1_def)
  have len1: "length (slots c1) = length (slots c)" by (simp add: c1_def setSlot_def)
  have same: "slots c1 ! j = slots c ! j" if "j \<noteq> i" for j
    using that by (simp add: c1_def setSlot_def)
  have at_i: "slots c1 ! i = (if P (slots c ! i)
      then (slots c ! i)\<lparr>flags := flags (slots c ! i) OR flagSustain\<rparr> else slots c ! i)"
    using i by (simp add: c1_def setSlot_def)
  have fr1: "c1 = c\<lparr>slots := slots c1\<rparr>" by (simp add: c1_def setSlot_def)
  from b have b1: "\<forall>j\<in>set is. j < length (slots c1)" by (simp add: len1)
  from Cons.IH [OF d b1] obtain c' where
    run: "forSlots ?body is c1 = Some c'"
    and fr: "c' = c1\<lparr>slots := slots c'\<rparr>"
    and len: "length (slots c') = length (slots c1)"
    and sl: "\<forall>j<length (slots c1).
           (j \<in> set is \<and> P (slots c1 ! j) \<longrightarrow>
              slots c' ! j = (slots c1 ! j)\<lparr>flags := flags (slots c1 ! j) OR flagSustain\<rparr>)
         \<and> (\<not> (j \<in> set is \<and> P (slots c1 ! j)) \<longrightarrow> slots c' ! j = slots c1 ! j)"
    by blast
  have run': "forSlots ?body (i # is) c = Some c'"
    using step run by simp
  have fr': "c' = c\<lparr>slots := slots c'\<rparr>"
    by (subst fr, subst fr1) simp
  have len': "length (slots c') = length (slots c)" using len len1 by simp
  have sl': "(j \<in> set (i # is) \<and> P (slots c ! j) \<longrightarrow>
              slots c' ! j = (slots c ! j)\<lparr>flags := flags (slots c ! j) OR flagSustain\<rparr>)
         \<and> (\<not> (j \<in> set (i # is) \<and> P (slots c ! j)) \<longrightarrow> slots c' ! j = slots c ! j)"
    if j: "j < length (slots c)" for j
  proof (cases "j = i")
    case True
    with sl i ni len1 have "slots c' ! i = slots c1 ! i" by auto
    with True at_i show ?thesis by simp
  next
    case False
    with sl j len1 same [OF False] show ?thesis by auto
  qed
  have sl'': "\<forall>j<length (slots c).
           (j \<in> set (i # is) \<and> P (slots c ! j) \<longrightarrow>
              slots c' ! j = (slots c ! j)\<lparr>flags := flags (slots c ! j) OR flagSustain\<rparr>)
         \<and> (\<not> (j \<in> set (i # is) \<and> P (slots c ! j)) \<longrightarrow> slots c' ! j = slots c ! j)"
    by (intro allI impI) (rule sl')
  show ?case
    by (rule exI [of _ c']) (intro conjI run' fr' len' sl'')
qed

lemma upt_slots: "distinct [0..<length (slots c)] \<and> (\<forall>i\<in>set [0..<length (slots c)]. i < length (slots c))"
  by simp

text \<open>
  C6. On a MIDI channel \<open>ch\<close> of the controller:
  if its sustain value is below 0x40, NoteOff(ch, note) releases every slot bound to
  (ch, note): each gets one KON = 0 write, in slot order, and ends unbound with the Free
  flag, and no other slot changes;
  otherwise NoteOff changes nothing but the flags of those slots, which gain flagSustain
  while they stay bound, and no register is written;
  and a control change that sets the sustain pedal to a value below 0x40 releases every
  slot of the channel that carries flagSustain, each with exactly one KON = 0 write, and
  leaves no slot of the channel with flagSustain, so that none is released again.
\<close>

theorem C6_note_off_and_sustain:
  assumes st: "midiState c ch = Some st"
  shows
   "(sustain st < 0x40 \<longrightarrow>
      (\<exists>c' ws. NoteOff c ch nt = Some c'
         \<and> registers c' = registers c @ ws
         \<and> filter isKON ws = map (\<lambda>i. WriteChannel (int i) KON 0)
              (filter (\<lambda>i. midiChannel (slots c ! i) = ch \<and> note (slots c ! i) = nt)
                 [0..<length (slots c)])
         \<and> length (slots c') = length (slots c)
         \<and> (\<forall>i<length (slots c).
               if midiChannel (slots c ! i) = ch \<and> note (slots c ! i) = nt
               then midiChannel (slots c' ! i) = - 1 \<and> flags (slots c' ! i) = flagFree
               else slots c' ! i = slots c ! i)))
  \<and> (\<not> sustain st < 0x40 \<longrightarrow>
      (\<exists>c'. NoteOff c ch nt = Some c'
         \<and> c' = c\<lparr>slots := slots c'\<rparr>
         \<and> length (slots c') = length (slots c)
         \<and> (\<forall>i<length (slots c).
               if midiChannel (slots c ! i) = ch \<and> note (slots c ! i) = nt
               then slots c' ! i = (slots c ! i)\<lparr>flags := flags (slots c ! i) OR flagSustain\<rparr>
                    \<and> midiChannel (slots c' ! i) = ch
                    \<and> flags (slots c' ! i) AND flagSustain \<noteq> 0
               else slots c' ! i = slots c ! i)))
  \<and> (v < 0x40 \<longrightarrow>
      (\<exists>c' ws. ControlChange c ch ccSustainPedal v = Some c'
         \<and> midiState c' ch = Some (st\<lparr>sustain := word_of_int v\<rparr>)
         \<and> registers c' = registers c @ ws
         \<and> filter isKON ws = map (\<lambda>i. WriteChannel (int i) KON 0)
              (filter (\<lambda>i. midiChannel (slots c ! i) = ch \<and> flags (slots c ! i) AND flagSustain \<noteq> 0)
                 [0..<length (slots c)])
         \<and> length (slots c') = length (slots c)
         \<and> (\<forall>i<length (slots c).
               if midiChannel (slots c ! i) = ch \<and> flags (slots c ! i) AND flagSustain \<noteq> 0
               then midiChannel (slots c' ! i) = - 1 \<and> flags (slots c' ! i) = flagFree
               else slots c' ! i = slots c ! i)
         \<and> (\<forall>i<length (slots c').
               \<not> (midiChannel (slots c' ! i) = ch \<and> flags (slots c' ! i) AND flagSustain \<noteq> 0))))"
proof (intro conjI impI)
  assume sus: "sustain st < 0x40"
  let ?P = "\<lambda>s. midiChannel s = ch \<and> note s = nt"
  have eq: "NoteOff c ch nt
      = forSlots (\<lambda>i c. if ?P (slots c ! i) then releaseSlot c (int i) False else Some c)
          [0..<length (slots c)] c"
    using st sus by (simp add: NoteOff_def eachSlot_def Let_def cong: if_cong)
  from forSlots_release [of "[0..<length (slots c)]" c ?P] upt_slots [of c]
  obtain c' ws where
    run: "forSlots (\<lambda>i c. if ?P (slots c ! i) then releaseSlot c (int i) False else Some c)
            [0..<length (slots c)] c = Some c'"
    and len: "length (slots c') = length (slots c)"
    and rg: "registers c' = registers c @ ws"
    and kn: "filter isKON ws = map (\<lambda>i. WriteChannel (int i) KON 0)
              (filter (\<lambda>i. ?P (slots c ! i)) [0..<length (slots c)])"
    and sl: "\<forall>j<length (slots c).
           (j \<in> set [0..<length (slots c)] \<and> ?P (slots c ! j) \<longrightarrow>
              midiChannel (slots c' ! j) = - 1 \<and> flags (slots c' ! j) = flagFree)
         \<and> (\<not> (j \<in> set [0..<length (slots c)] \<and> ?P (slots c ! j)) \<longrightarrow> slots c' ! j = slots c ! j)"
    by blast
  have sl': "\<forall>i<length (slots c).
               if midiChannel (slots c ! i) = ch \<and> note (slots c ! i) = nt
               then midiChannel (slots c' ! i) = - 1 \<and> flags (slots c' ! i) = flagFree
               else slots c' ! i = slots c ! i"
    using sl by auto
  show "\<exists>c' ws. NoteOff c ch nt = Some c'
         \<and> registers c' = registers c @ ws
         \<and> filter isKON ws = map (\<lambda>i. WriteChannel (int i) KON 0)
              (filter (\<lambda>i. midiChannel (slots c ! i) = ch \<and> note (slots c ! i) = nt)
                 [0..<length (slots c)])
         \<and> length (slots c') = length (slots c)
         \<and> (\<forall>i<length (slots c).
               if midiChannel (slots c ! i) = ch \<and> note (slots c ! i) = nt
               then midiChannel (slots c' ! i) = - 1 \<and> flags (slots c' ! i) = flagFree
               else slots c' ! i = slots c ! i)"
    unfolding eq
    by (rule exI [of _ c'], rule exI [of _ ws]) (intro conjI run rg kn len sl')
next
  assume sus: "\<not> sustain st < 0x40"
  let ?P = "\<lambda>s. midiChannel s = ch \<and> note s = nt"
  have eq: "NoteOff c ch nt
      = forSlots (\<lambda>i c. if ?P (slots c ! i)
                        then Some (setSlot c i ((slots c ! i)\<lparr>flags := flags (slots c ! i) OR flagSustain\<rparr>))
                        else Some c)
          [0..<length (slots c)] c"
    using st sus by (simp add: NoteOff_def eachSlot_def Let_def cong: if_cong)
  from forSlots_mark [of "[0..<length (slots c)]" c ?P] upt_slots [of c]
  obtain c' where
    run: "forSlots (\<lambda>i c. if ?P (slots c ! i)
                        then Some (setSlot c i ((slots c ! i)\<lparr>flags := flags (slots c ! i) OR flagSustain\<rparr>))
                        else Some c)
            [0..<length (slots c)] c = Some c'"
    and fr: "c' = c\<lparr>slots := slots c'\<rparr>"
    and len: "length (slots c') = length (slots c)"
    and sl: "\<forall>j<length (slots c).
           (j \<in> set [0..<length (slots c)] \<and> ?P (slots c ! j) \<longrightarrow>
              slots c' ! j = (slots c ! j)\<lparr>flags := flags (slots c ! j) OR flagSustain\<rparr>)
         \<and> (\<not> (j \<in> set [0..<length (slots c)] \<and> ?P (slots c ! j)) \<longrightarrow> slots c' ! j = slots c ! j)"
    by blast
  have sl': "\<forall>i<length (slots c).
               if midiChannel (slots c ! i) = ch \<and> note (slots c ! i) = nt
               then slots c' ! i = (slots c ! i)\<lparr>flags := flags (slots c ! i) OR flagSustain\<rparr>
                    \<and> midiChannel (slots c' ! i) = ch
                    \<and> flags (slots c' ! i) AND flagSustain \<noteq> 0
               else slots c' ! i = slots c ! i"
    using sl by (auto simp: flagSustain_set)
  show "\<exists>c'. NoteOff c ch nt = Some c'
         \<and> c' = c\<lparr>slots := slots c'\<rparr>
         \<and> length (slots c') = length (slots c)
         \<and> (\<forall>i<length (slots c).
               if midiChannel (slots c ! i) = ch \<and> note (slots c ! i) = nt
               then slots c' ! i = (slots c ! i)\<lparr>flags := flags (slots c ! i) OR flagSustain\<rparr>
                    \<and> midiChannel (slots c' ! i) = ch
                    \<and> flags (slots c' ! i) AND flagSustain \<noteq> 0
               else slots c' ! i = slots c ! i)"
    unfolding eq
    by (rule exI [of _ c']) (intro conjI run fr len sl')
next
  assume v: "v < 0x40"
  let ?Q = "\<lambda>s. midiChannel s = ch \<and> flags s AND flagSustain \<noteq> 0"
  define c1 where "c1 = setMidiState c ch (st\<lparr>sustain := word_of_int v\<rparr>)"
  have s1: "slots c1 = slots c" and r1: "registers c1 = registers c"
    by (simp_all add: c1_def setMidiState_def)
  have m1: "midiState c1 ch = Some (st\<lparr>sustain := word_of_int v\<rparr>)"
    unfolding c1_def by (rule midiState_setMidiState [OF st])
  have eq: "ControlChange c ch ccSustainPedal v
      = forSlots (\<lambda>i c. if ?Q (slots c ! i) then releaseSlot c (int i) False else Some c)
          [0..<length (slots c1)] c1"
    using st v
    by (simp add: ControlChange_def cc_defs c1_def [symmetric] releaseSustain_def eachSlot_def
          Let_def cong: if_cong)
  from forSlots_release [of "[0..<length (slots c1)]" c1 ?Q] upt_slots [of c1]
  obtain c' ws where
    run: "forSlots (\<lambda>i c. if ?Q (slots c ! i) then releaseSlot c (int i) False else Some c)
            [0..<length (slots c1)] c1 = Some c'"
    and len: "length (slots c') = length (slots c1)"
    and ms: "midiChannelStates c' = midiChannelStates c1"
    and rg: "registers c' = registers c1 @ ws"
    and kn: "filter isKON ws = map (\<lambda>i. WriteChannel (int i) KON 0)
              (filter (\<lambda>i. ?Q (slots c1 ! i)) [0..<length (slots c1)])"
    and sl: "\<forall>j<length (slots c1).
           (j \<in> set [0..<length (slots c1)] \<and> ?Q (slots c1 ! j) \<longrightarrow>
              midiChannel (slots c' ! j) = - 1 \<and> flags (slots c' ! j) = flagFree)
         \<and> (\<not> (j \<in> set [0..<length (slots c1)] \<and> ?Q (slots c1 ! j)) \<longrightarrow> slots c' ! j = slots c1 ! j)"
    by blast
  have "midiState c' ch = midiState c1 ch" unfolding midiState_def ms ..
  with m1 have m': "midiState c' ch = Some (st\<lparr>sustain := word_of_int v\<rparr>)" by simp
  have len': "length (slots c') = length (slots c)" using len s1 by simp
  have rg': "registers c' = registers c @ ws" using rg r1 by simp
  have kn': "filter isKON ws = map (\<lambda>i. WriteChannel (int i) KON 0)
              (filter (\<lambda>i. midiChannel (slots c ! i) = ch \<and> flags (slots c ! i) AND flagSustain \<noteq> 0)
                 [0..<length (slots c)])"
    using kn by (simp add: s1)
  have sl': "\<forall>i<length (slots c).
               if midiChannel (slots c ! i) = ch \<and> flags (slots c ! i) AND flagSustain \<noteq> 0
               then midiChannel (slots c' ! i) = - 1 \<and> flags (slots c' ! i) = flagFree
               else slots c' ! i = slots c ! i"
    using sl by (auto simp: s1)
  from st have chpos: "0 \<le> ch" by (simp add: midiState_def split: if_splits)
  have gone: "\<forall>i<length (slots c').
               \<not> (midiChannel (slots c' ! i) = ch \<and> flags (slots c' ! i) AND flagSustain \<noteq> 0)"
  proof (intro allI impI)
    fix i assume "i < length (slots c')"
    then have i: "i < length (slots c)" by (simp add: len')
    show "\<not> (midiChannel (slots c' ! i) = ch \<and> flags (slots c' ! i) AND flagSustain \<noteq> 0)"
    proof (cases "midiChannel (slots c ! i) = ch \<and> flags (slots c ! i) AND flagSustain \<noteq> 0")
      case True
      with sl' i have "midiChannel (slots c' ! i) = - 1" by auto
      with chpos show ?thesis by simp
    next
      case False
      with sl' i have "slots c' ! i = slots c ! i" by auto
      with False show ?thesis by simp
    qed
  qed
  show "\<exists>c' ws. ControlChange c ch ccSustainPedal v = Some c'
         \<and> midiState c' ch = Some (st\<lparr>sustain := word_of_int v\<rparr>)
         \<and> registers c' = registers c @ ws
         \<and> filter isKON ws = map (\<lambda>i. WriteChannel (int i) KON 0)
              (filter (\<lambda>i. midiChannel (slots c ! i) = ch \<and> flags (slots c ! i) AND flagSustain \<noteq> 0)
                 [0..<length (slots c)])
         \<and> length (slots c') = length (slots c)
         \<and> (\<forall>i<length (slots c).
               if midiChannel (slots c ! i) = ch \<and> flags (slots c ! i) AND flagSustain \<noteq> 0
               then midiChannel (slots c' ! i) = - 1 \<and> flags (slots c' ! i) = flagFree
               else slots c' ! i = slots c ! i)
         \<and> (\<forall>i<length (slots c').
               \<not> (midiChannel (slots c' ! i) = ch \<and> flags (slots c' ! i) AND flagSustain \<noteq> 0))"
    unfolding eq
    by (rule exI [of _ c'], rule exI [of _ ws]) (intro conjI run m' rg' kn' len' sl' gone)
qed

theorem C6_note_off_and_sustain_witness:
  "midiState exampleSounding 0 = Some zeroMidiChannelState
   \<and> sustain zeroMidiChannelState < 0x40
   \<and> (\<exists>c' ws. NoteOff exampleSounding 0 60 = Some c'
         \<and> registers c' = registers exampleSounding @ ws
         \<and> filter isKON ws = [WriteChannel 0 KON 0]
         \<and> flags (slots c' ! 0) = flagFree
         \<and> slots c' ! 1 = slots exampleSounding ! 1)
   \<and> midiState examplePedal 0 = Some examplePedalState
   \<and> \<not> sustain examplePedalState < 0x40
   \<and> (\<exists>c1. NoteOff examplePedal 0 60 = Some c1
         \<and> registers c1 = registers examplePedal
         \<and> midiChannel (slots c1 ! 0) = 0
         \<and> flags (slots c1 ! 0) AND flagSustain \<noteq> 0
         \<and> (0::int) < 0x40
         \<and> (\<exists>c2 ws. ControlChange c1 0 ccSustainPedal 0 = Some c2
               \<and> registers c2 = registers c1 @ ws
               \<and> filter isKON ws = [WriteChannel 0 KON 0]
               \<and> flags (slots c2 ! 0) = flagFree))"
proof -
  have u: "[0..<2::nat] = [0, 1]" by (simp add: numeral_2_eq_2)
  have slS: "slots exampleSounding = [zeroSlot\<lparr>midiChannel := 0, note := 60, time := 1\<rparr>,
                             zeroSlot\<lparr>midiChannel := 1, note := 60, time := 1\<rparr>]"
    by (simp add: exampleSounding_def)
  have slP: "slots examplePedal = slots exampleSounding"
    by (simp add: examplePedal_def setMidiState_def)
  have stS: "midiState exampleSounding 0 = Some zeroMidiChannelState"
    by (simp add: midiState_def exampleSounding_def exampleFresh_def NewController_def)
  have stP: "midiState examplePedal 0 = Some examplePedalState"
    unfolding examplePedal_def by (rule midiState_setMidiState [OF stS])
  have lo: "sustain zeroMidiChannelState < 0x40" by (simp add: zeroMidiChannelState_def)
  have hi: "\<not> sustain examplePedalState < 0x40"
    by (simp add: examplePedalState_def zeroMidiChannelState_def)
  have fS: "filter (\<lambda>i. midiChannel (slots exampleSounding ! i) = 0
                      \<and> note (slots exampleSounding ! i) = 60)
              [0..<length (slots exampleSounding)] = [0]"
    by (simp add: slS u zeroSlot_def)
  from C6_note_off_and_sustain [OF stS, of 60 0] lo
  obtain c' ws where a: "NoteOff exampleSounding 0 60 = Some c'"
      "registers c' = registers exampleSounding @ ws"
      "filter isKON ws = map (\<lambda>i. WriteChannel (int i) KON 0)
              (filter (\<lambda>i. midiChannel (slots exampleSounding ! i) = 0
                          \<and> note (slots exampleSounding ! i) = 60)
                 [0..<length (slots exampleSounding)])"
      "\<forall>i<length (slots exampleSounding).
               if midiChannel (slots exampleSounding ! i) = 0 \<and> note (slots exampleSounding ! i) = 60
               then midiChannel (slots c' ! i) = - 1 \<and> flags (slots c' ! i) = flagFree
               else slots c' ! i = slots exampleSounding ! i"
    by blast
  from a(3) have a3: "filter isKON ws = [WriteChannel 0 KON 0]" unfolding fS by simp
  have i0: "0 < length (slots exampleSounding)" and i1: "1 < length (slots exampleSounding)"
    by (simp_all add: slS)
  have m0: "midiChannel (slots exampleSounding ! 0) = 0 \<and> note (slots exampleSounding ! 0) = 60"
    and m1: "\<not> (midiChannel (slots exampleSounding ! 1) = 0 \<and> note (slots exampleSounding ! 1) = 60)"
    by (simp_all add: slS zeroSlot_def)
  from a(4) [rule_format, OF i0] have a40: "flags (slots c' ! 0) = flagFree"
    using m0 by (auto split: if_splits)
  from a(4) [rule_format, OF i1] have a41: "slots c' ! 1 = slots exampleSounding ! 1"
    by (simp only: m1 if_False)
  note a4 = a40 a41
  from C6_note_off_and_sustain [OF stP, of 60 0] hi
  obtain c1 where b: "NoteOff examplePedal 0 60 = Some c1"
      "c1 = examplePedal\<lparr>slots := slots c1\<rparr>"
      "length (slots c1) = length (slots examplePedal)"
      "\<forall>i<length (slots examplePedal).
               if midiChannel (slots examplePedal ! i) = 0 \<and> note (slots examplePedal ! i) = 60
               then slots c1 ! i = (slots examplePedal ! i)\<lparr>flags := flags (slots examplePedal ! i) OR flagSustain\<rparr>
                    \<and> midiChannel (slots c1 ! i) = 0
                    \<and> flags (slots c1 ! i) AND flagSustain \<noteq> 0
               else slots c1 ! i = slots examplePedal ! i"
    by blast
  from b(2) have b2: "registers c1 = registers examplePedal"
    by (metis Controller.select_convs(1) Controller.surjective Controller.update_convs(4))
  have len1: "length (slots c1) = 2" using b(3) by (simp add: slP slS)
  from b(4) [unfolded slP, rule_format, OF i0]
  have s0: "midiChannel (slots c1 ! 0) = 0" "flags (slots c1 ! 0) AND flagSustain \<noteq> 0"
    using m0 by (auto split: if_splits)
  from b(4) [unfolded slP, rule_format, OF i1]
  have s1: "slots c1 ! 1 = slots exampleSounding ! 1"
    by (simp only: m1 if_False)
  from b(2) stP have st1: "midiState c1 0 = Some examplePedalState"
    by (metis Controller.select_convs(3) Controller.surjective Controller.update_convs(4) midiState_def)
  have q1: "\<not> (midiChannel (slots c1 ! 1) = 0 \<and> flags (slots c1 ! 1) AND flagSustain \<noteq> 0)"
    unfolding s1 by (simp add: slS zeroSlot_def)
  have fP: "filter (\<lambda>i. midiChannel (slots c1 ! i) = 0 \<and> flags (slots c1 ! i) AND flagSustain \<noteq> 0)
              [0..<length (slots c1)] = [0]"
    using s0 q1 by (simp add: len1 u)
  have v: "(0::int) < 0x40" by simp
  from C6_note_off_and_sustain [OF st1, of 0 0] v
  obtain c2 ws2 where c: "ControlChange c1 0 ccSustainPedal 0 = Some c2"
      "registers c2 = registers c1 @ ws2"
      "filter isKON ws2 = map (\<lambda>i. WriteChannel (int i) KON 0)
              (filter (\<lambda>i. midiChannel (slots c1 ! i) = 0 \<and> flags (slots c1 ! i) AND flagSustain \<noteq> 0)
                 [0..<length (slots c1)])"
      "\<forall>i<length (slots c1).
               if midiChannel (slots c1 ! i) = 0 \<and> flags (slots c1 ! i) AND flagSustain \<noteq> 0
               then midiChannel (slots c2 ! i) = - 1 \<and> flags (slots c2 ! i) = flagFree
               else slots c2 ! i = slots c1 ! i"
    by blast
  from c(3) have c3: "filter isKON ws2 = [WriteChannel 0 KON 0]" unfolding fP by simp
  have j0: "0 < length (slots c1)" by (simp add: len1)
  from c(4) [rule_format, OF j0] have c4: "flags (slots c2 ! 0) = flagFree"
    using s0 by (auto split: if_splits)
  from stS lo a(1,2) a3 a4 stP hi b(1) b2 s0 v c(1,2) c3 c4 show ?thesis by blast
qed

end
